theory Spec2Isabelle
  imports Main "HOL-Library.Word"
begin

section \<open>Values of the program\<close>

text \<open>
  The program is the command \<^verbatim>\<open>main\<close> of \<^verbatim>\<open>main.go\<close>. It reads miniSEED blocks from the
  files named on the command line, hands every block of a configured channel to the
  stream processor of package \<^verbatim>\<open>impact\<close>, and sends a JSON message to an SQS queue
  whenever that processor's \<^verbatim>\<open>Flush\<close> says so.

  A Go \<^verbatim>\<open>error\<close> is modelled by its message. A \<^verbatim>\<open>time.Time\<close> is the number of
  nanoseconds since the zero time, a \<^verbatim>\<open>time.Duration\<close> a number of nanoseconds.
\<close>

type_synonym error = string
type_synonym time = int
type_synonym duration = int

definition Second :: duration where
  "Second = 1000000000"

definition Minute :: duration where
  "Minute = 60 * Second"

text \<open>
  \<^verbatim>\<open>t.Truncate(d)\<close> rounds \<open>t\<close> down to a multiple of \<open>d\<close> since the zero time, and
  returns \<open>t\<close> unchanged when \<open>d <= 0\<close>.
\<close>

definition Truncate :: "time \<Rightarrow> duration \<Rightarrow> time" where
  "Truncate t d = (if d \<le> 0 then t else t - t mod d)"

text \<open>
  \<^verbatim>\<open>strings.TrimRight(s, "\u0000")\<close>: the cutset is one ASCII byte, so the library runs
  \<^verbatim>\<open>for len(s) > 0 && s[len(s)-1] == c { s = s[:len(s)-1] }\<close>.
\<close>

function trimRightByte :: "string \<Rightarrow> char \<Rightarrow> string" where
  "trimRightByte s c = (if s \<noteq> [] \<and> last s = c then trimRightByte (butlast s) c else s)"
  by pat_completeness auto
termination
  by (relation "measure (\<lambda>(s, c). length s)") auto

declare trimRightByte.simps [simp del]

definition NUL :: char where
  "NUL = CHR 0x00"

definition TrimRight :: "string \<Rightarrow> char \<Rightarrow> string" where
  "TrimRight s c = (if s = [] then s else trimRightByte s c)"

text \<open>
  \<^verbatim>\<open>strings.NewReplacer("_", ".")\<close>: old and new are single bytes, so the replacer is a byte
  table and \<^verbatim>\<open>Replace\<close> maps every byte of its argument through it.
\<close>

definition NewReplacer :: "char \<Rightarrow> char \<Rightarrow> char \<Rightarrow> char" where
  "NewReplacer old new b = (if b = old then new else b)"

definition Replace :: "(char \<Rightarrow> char) \<Rightarrow> string \<Rightarrow> string" where
  "Replace r s = map r s"

definition replace :: "char \<Rightarrow> char" where
  "replace = NewReplacer (CHR ''_'') (CHR ''.'')"

section \<open>Data\<close>

text \<open>
  The command line. \<^verbatim>\<open>level\<close> is a Go \<^verbatim>\<open>int\<close> (64 bits); \<^verbatim>\<open>main\<close> converts it with
  \<^verbatim>\<open>(int32)(level)\<close>, which keeps the low 32 bits.
\<close>

record Flags =
  verbose :: bool
  dryrun :: bool
  replay :: bool
  config :: string
  region :: string
  queue :: string
  key :: string
  secret :: string
  probation :: duration
  level :: "64 word"
  args :: "string list"

text \<open>
  \<^verbatim>\<open>impact.Message\<close>: \<^verbatim>\<open>main\<close> reads \<^verbatim>\<open>MMI\<close> and writes \<^verbatim>\<open>Time\<close>; whatever else
  the type holds is the record's extension. The type of a level is a parameter.
\<close>

record 'l Message =
  Time :: time
  MMI :: 'l

text \<open>
  What \<^verbatim>\<open>main\<close> reads from the record after \<^verbatim>\<open>msr.Unpack\<close>: the network and station
  codes, \<^verbatim>\<open>SrcName(0)\<close>, the start time, and the outcome of \<^verbatim>\<open>DataSamples()\<close>. The
  type of the samples is a parameter.
\<close>

record 'x MSRecord =
  Network :: string
  Station :: string
  SrcName :: string
  Starttime :: time
  DataSamples :: "error + 'x"

text \<open>
  One pass of the read loop: \<^verbatim>\<open>in.Read\<close> fails with an error other than \<^verbatim>\<open>io.EOF\<close>, or
  it returns bytes, which \<^verbatim>\<open>Unpack\<close> decodes (\<^verbatim>\<open>main\<close> does not look at its result: the
  block is what the record holds afterwards). A read of no bytes ends the file, and the
  list. Each block comes with the reading of the wall clock during its pass.
\<close>

datatype 'x read = ReadError error | Block time "'x MSRecord"

text \<open>
  Everything \<^verbatim>\<open>main\<close> calls and does not define. The stream type \<open>'s\<close> is what a
  \<^verbatim>\<open>*impact.Stream\<close> points to: a method may change it, so each method returns the stream
  it leaves behind. A method may read the wall clock, so each takes the reading.
  \<^verbatim>\<open>LoadStreams\<close> returns only the map in Go; \<open>Inl\<close> is a call that ends the process
  and never returns. \<open>rangeOrder\<close> is the order in which \<^verbatim>\<open>for s := range state\<close> visits
  the keys.
\<close>

record ('s, 'x, 'l, 'm, 'a, 'q) World =
  Getenv :: "string \<Rightarrow> string"
  Now :: time
  GetAuth :: "string \<Rightarrow> string \<Rightarrow> time \<Rightarrow> error + 'a"
  GetQueue :: "'a \<Rightarrow> string \<Rightarrow> string \<Rightarrow> error + 'q"
  SendMessage :: "time \<Rightarrow> 'q \<Rightarrow> string \<Rightarrow> error option"
  Marshal :: "('l, 'm) Message_scheme \<Rightarrow> error + string"
  Open :: "string \<Rightarrow> error + 'x read list"
  LoadStreams :: "string \<Rightarrow> error + (string \<rightharpoonup> 's)"
  rangeOrder :: "(string \<rightharpoonup> 's) \<Rightarrow> string list"
  Init :: "time \<Rightarrow> 's \<Rightarrow> string \<Rightarrow> duration \<Rightarrow> 32 word \<Rightarrow> error + 's"
  ProcessSamples ::
    "time \<Rightarrow> 's \<Rightarrow> string \<Rightarrow> string \<Rightarrow> time \<Rightarrow> 'x \<Rightarrow> (error + ('l, 'm) Message_scheme) \<times> 's"
  Flush :: "time \<Rightarrow> 's \<Rightarrow> duration \<Rightarrow> 'l \<Rightarrow> bool \<times> 's"

text \<open>
  What the process does to the outside, in order. \<open>Lookup\<close> is the read
  \<^verbatim>\<open>state[srcname]\<close>; the three \<open>Log\<close> events are the three \<^verbatim>\<open>log.Printf\<close> calls of the
  read loop; \<open>Emit\<close> is the send on the channel \<^verbatim>\<open>result\<close>; \<open>Println\<close> and \<open>Send\<close>
  are the goroutine's \<^verbatim>\<open>fmt.Println\<close> and \<^verbatim>\<open>Q.SendMessage\<close>.
\<close>

datatype ('l, 'm) event =
    GetAuthCall string string time
  | GetQueueCall string string
  | LoadStreamsCall string
  | InitCall string duration "32 word"
  | PrintFile string
  | OpenCall string
  | Lookup string
  | LogMissing string
  | LogSampleProblem error
  | LogProcessProblem error
  | ProcessCall string string time
  | FlushCall string duration 'l
  | Emit "('l, 'm) Message_scheme"
  | Println string
  | Send string

datatype exit = Done | Fatal error | Panicked error

section \<open>The read loop\<close>

text \<open>
  Lines 142 to 181: one decoded block. The result is the events, the streams, the
  rejected keys and the message put on \<^verbatim>\<open>result\<close>, if any.
\<close>

definition process_block ::
  "('s, 'x, 'l, 'm, 'a, 'q) World \<Rightarrow> Flags \<Rightarrow> time \<Rightarrow> 'x MSRecord \<Rightarrow>
   (string \<rightharpoonup> 's) \<Rightarrow> (string \<rightharpoonup> string) \<Rightarrow>
   ('l, 'm) event list \<times> (string \<rightharpoonup> 's) \<times> (string \<rightharpoonup> string) \<times> ('l, 'm) Message_scheme option"
where
  "process_block W F now msr state missing =
    (let source = TrimRight (Network msr @ ''.'' @ Station msr) NUL;
         srcname = SrcName msr
     in case missing srcname of
          Some _ \<Rightarrow> ([], state, missing, None)
        | None \<Rightarrow>
           (case state srcname of
              None \<Rightarrow> ([Lookup srcname, LogMissing srcname], state, missing(srcname \<mapsto> srcname), None)
            | Some stream \<Rightarrow>
               (case DataSamples msr of
                  Inl err \<Rightarrow> ([Lookup srcname, LogSampleProblem err], state, missing, None)
                | Inr samples \<Rightarrow>
                   (case ProcessSamples W now stream (Replace replace source) srcname (Starttime msr) samples of
                      (Inl err, stream1) \<Rightarrow>
                        ([Lookup srcname, ProcessCall (Replace replace source) srcname (Starttime msr),
                          LogProcessProblem err],
                         state(srcname \<mapsto> stream1), missing, None)
                    | (Inr message, stream1) \<Rightarrow>
                       (case Flush W now stream1 0 (MMI message) of (send, stream2) \<Rightarrow>
                          ([Lookup srcname, ProcessCall (Replace replace source) srcname (Starttime msr),
                            FlushCall srcname 0 (MMI message)],
                           state(srcname \<mapsto> stream2), missing,
                           if send
                           then Some (if replay F then message\<lparr>Time := Truncate now Second\<rparr> else message)
                           else None))))))"

text \<open>
  Lines 101 to 117: the goroutine's body for one message taken from \<^verbatim>\<open>result\<close>.
  \<^verbatim>\<open>log.Panic\<close> ends the process. \<open>Q\<close> is \<open>None\<close> when no queue was opened.
\<close>

definition deliver ::
  "('s, 'x, 'l, 'm, 'a, 'q) World \<Rightarrow> Flags \<Rightarrow> 'q option \<Rightarrow> time \<Rightarrow> ('l, 'm) Message_scheme \<Rightarrow>
   ('l, 'm) event list \<times> exit option"
where
  "deliver W F Q now m =
    (case Marshal W m of
       Inl err \<Rightarrow> ([], Some (Panicked err))
     | Inr mm \<Rightarrow>
        (let printed = (if verbose F then [Println mm] else [])
         in if \<not> dryrun F
            then (case Q of
                    None \<Rightarrow> (printed, Some (Panicked ''nil pointer dereference''))
                  | Some q \<Rightarrow>
                     (case SendMessage W now q mm of
                        Some err \<Rightarrow> (printed @ [Send mm], Some (Panicked err))
                      | None \<Rightarrow> (printed @ [Send mm], None)))
            else (printed, None)))"

text \<open>
  Lines 133 to 183: the blocks of one file. The channel \<^verbatim>\<open>result\<close> is unbuffered, so
  the goroutine takes each message at the send. In Go its body then runs beside the
  next passes of the loop, and a panic in it ends the process; the function takes the
  schedule in which the body is done before the loop goes on. The relation \<open>step\<close> below
  has every schedule.
\<close>

fun read_loop ::
  "('s, 'x, 'l, 'm, 'a, 'q) World \<Rightarrow> Flags \<Rightarrow> 'q option \<Rightarrow> 'x read list \<Rightarrow>
   (string \<rightharpoonup> 's) \<Rightarrow> (string \<rightharpoonup> string) \<Rightarrow>
   ('l, 'm) event list \<times> (string \<rightharpoonup> 's) \<times> (string \<rightharpoonup> string) \<times> exit option"
where
  "read_loop W F Q [] state missing = ([], state, missing, None)"
| "read_loop W F Q (ReadError err # rs) state missing = ([], state, missing, Some (Panicked err))"
| "read_loop W F Q (Block now msr # rs) state missing =
    (case process_block W F now msr state missing of
       (evs, state1, missing1, None) \<Rightarrow>
         (case read_loop W F Q rs state1 missing1 of
            (evs2, state2, missing2, x) \<Rightarrow> (evs @ evs2, state2, missing2, x))
     | (evs, state1, missing1, Some m) \<Rightarrow>
         (case deliver W F Q now m of
            (devs, Some x) \<Rightarrow> (evs @ Emit m # devs, state1, missing1, Some x)
          | (devs, None) \<Rightarrow>
             (case read_loop W F Q rs state1 missing1 of
                (evs2, state2, missing2, x) \<Rightarrow> (evs @ Emit m # devs @ evs2, state2, missing2, x))))"

text \<open>Lines 122 to 185: the files named on the command line, in order.\<close>

fun file_loop ::
  "('s, 'x, 'l, 'm, 'a, 'q) World \<Rightarrow> Flags \<Rightarrow> 'q option \<Rightarrow> string list \<Rightarrow>
   (string \<rightharpoonup> 's) \<Rightarrow> (string \<rightharpoonup> string) \<Rightarrow>
   ('l, 'm) event list \<times> (string \<rightharpoonup> 's) \<times> (string \<rightharpoonup> string) \<times> exit"
where
  "file_loop W F Q [] state missing = ([], state, missing, Done)"
| "file_loop W F Q (f # fs) state missing =
    (let printed = (if verbose F then [PrintFile f] else [])
     in case Open W f of
          Inl err \<Rightarrow> (printed @ [OpenCall f], state, missing, Fatal err)
        | Inr rs \<Rightarrow>
           (case read_loop W F Q rs state missing of
              (evs, state1, missing1, Some x) \<Rightarrow> (printed @ OpenCall f # evs, state1, missing1, x)
            | (evs, state1, missing1, None) \<Rightarrow>
               (case file_loop W F Q fs state1 missing1 of
                  (evs2, state2, missing2, x) \<Rightarrow>
                    (printed @ OpenCall f # evs @ evs2, state2, missing2, x))))"

section \<open>Startup\<close>

text \<open>Lines 65 to 79: the queue is opened unless \<^verbatim>\<open>-dry-run\<close> is given.\<close>

definition connect ::
  "('s, 'x, 'l, 'm, 'a, 'q) World \<Rightarrow> Flags \<Rightarrow> string \<Rightarrow> string \<Rightarrow>
   ('l, 'm) event list \<times> (error + 'q option)"
where
  "connect W F region1 queue1 =
    (if \<not> dryrun F
     then (case GetAuth W (key F) (secret F) (Now W + 30 * Minute) of
             Inl err \<Rightarrow> ([GetAuthCall (key F) (secret F) (Now W + 30 * Minute)], Inl err)
           | Inr A \<Rightarrow>
              (case GetQueue W A region1 queue1 of
                 Inl err \<Rightarrow>
                   ([GetAuthCall (key F) (secret F) (Now W + 30 * Minute), GetQueueCall region1 queue1],
                    Inl err)
               | Inr Q \<Rightarrow>
                   ([GetAuthCall (key F) (secret F) (Now W + 30 * Minute), GetQueueCall region1 queue1],
                    Inr (Some Q))))
     else ([], Inr None))"

text \<open>
  Lines 84 to 90: \<^verbatim>\<open>Init\<close> on every stream of the map, with the flags \<^verbatim>\<open>-probation\<close>
  and \<^verbatim>\<open>-level\<close>; the first error ends the process (\<^verbatim>\<open>log.Fatal\<close>). A key of the
  range is a key of the map; for any other, \<^verbatim>\<open>state[s]\<close> is nil.
\<close>

fun init_streams ::
  "('s, 'x, 'l, 'm, 'a, 'q) World \<Rightarrow> duration \<Rightarrow> 64 word \<Rightarrow> string list \<Rightarrow> (string \<rightharpoonup> 's) \<Rightarrow>
   ('l, 'm) event list \<times> (exit + (string \<rightharpoonup> 's))"
where
  "init_streams W p l [] state = ([], Inr state)"
| "init_streams W p l (s # ss) state =
    (case state s of
       None \<Rightarrow> ([], Inl (Panicked ''nil pointer dereference''))
     | Some stream \<Rightarrow>
        (case Init W (Now W) stream s p (ucast l) of
           Inl err \<Rightarrow> ([InitCall s p (ucast l)], Inl (Fatal err))
         | Inr stream1 \<Rightarrow>
            (case init_streams W p l ss (state(s \<mapsto> stream1)) of
               (evs, r) \<Rightarrow> (InitCall s p (ucast l) # evs, r))))"

text \<open>Lines 19 to 186.\<close>

definition main ::
  "('s, 'x, 'l, 'm, 'a, 'q) World \<Rightarrow> Flags \<Rightarrow> ('l, 'm) event list \<times> exit"
where
  "main W F =
    (let region1 = (if region F = [] then Getenv W ''AWS_IMPACT_REGION'' else region F)
     in if region1 = []
        then ([], Fatal ''unable to find region in environment or command line [AWS_IMPACT_REGION]'')
        else
         (let queue1 = (if queue F = [] then Getenv W ''AWS_IMPACT_QUEUE'' else queue F)
          in if queue1 = []
             then ([], Fatal ''unable to find queue in environment or command line [AWS_IMPACT_QUEUE]'')
             else
              (case connect W F region1 queue1 of
                 (evs0, Inl err) \<Rightarrow> (evs0, Fatal err)
               | (evs0, Inr Q) \<Rightarrow>
                  (case LoadStreams W (config F) of
                     Inl err \<Rightarrow> (evs0 @ [LoadStreamsCall (config F)], Fatal err)
                   | Inr state \<Rightarrow>
                      (case init_streams W (probation F) (level F) (rangeOrder W state) state of
                         (evs1, Inl x) \<Rightarrow> (evs0 @ LoadStreamsCall (config F) # evs1, x)
                       | (evs1, Inr state1) \<Rightarrow>
                          (case file_loop W F Q (args F) state1 Map.empty of
                             (evs2, state2, missing2, x) \<Rightarrow>
                               (evs0 @ LoadStreamsCall (config F) # evs1 @ evs2, x)))))))"

section \<open>The loop and the goroutine side by side\<close>

text \<open>
  Where the file loop of \<^verbatim>\<open>main\<close> stands (lines 122 to 185): before the files still to
  open, before the reads still to come of the open file, at the send
  \<^verbatim>\<open>result <- message\<close> of line 180 with the message in hand, or on its way out of the
  process (the return from \<^verbatim>\<open>main\<close>, \<^verbatim>\<open>log.Fatal\<close> of line 130, \<^verbatim>\<open>panic\<close> of line 137).
\<close>

datatype ('x, 'l, 'm) loop_at =
    AtFile "string list"
  | AtRead "'x read list" "string list"
  | AtSend "('l, 'm) Message_scheme" "'x read list" "string list"
  | Leaving exit

text \<open>
  Where the goroutine of lines 101 to 117 stands: at \<^verbatim>\<open>range result\<close> waiting for a
  message, holding the message taken, holding its JSON text after \<^verbatim>\<open>json.Marshal\<close>, past
  the \<^verbatim>\<open>fmt.Println\<close> of line 108, or in \<^verbatim>\<open>log.Panic\<close> (lines 105 and 113).
\<close>

datatype ('l, 'm) goroutine_at =
    Waiting
  | Taken "('l, 'm) Message_scheme"
  | Encoded string
  | Shown string
  | Panicking error

text \<open>
  The running process: where the two goroutines stand, the maps \<^verbatim>\<open>state\<close> and
  \<^verbatim>\<open>missing\<close>, the events so far, and how the process ended, once it has.
\<close>

record ('s, 'x, 'l, 'm) process =
  loop :: "('x, 'l, 'm) loop_at"
  channels :: "string \<rightharpoonup> 's"
  rejected :: "string \<rightharpoonup> string"
  worker :: "('l, 'm) goroutine_at"
  trace :: "('l, 'm) event list"
  ended :: "exit option"

text \<open>
  One move of the process, by the loop or by the goroutine, in any order: the relation
  holds every interleaving of the two. The channel \<^verbatim>\<open>result\<close> is unbuffered (line 100),
  so the send of line 180 happens only when the goroutine waits at \<^verbatim>\<open>range result\<close>, and
  the loop stands at the send until then. The goroutine reads the flags and the queue and
  never the maps. A pass of the read loop up to its send (lines 134 to 179) is one move,
  \<open>process_block\<close>. \<^verbatim>\<open>log.Panic\<close> and the ways out of \<^verbatim>\<open>main\<close> end the process in a move
  of their own, \<open>crashed\<close> and \<open>left\<close>: until it is taken, the other goroutine goes on.
  \<^verbatim>\<open>Q.SendMessage\<close> gets the reading \<open>t\<close> of the clock at its call, whatever it is.
\<close>

inductive step ::
  "('s, 'x, 'l, 'm, 'a, 'q) World \<Rightarrow> Flags \<Rightarrow> 'q option \<Rightarrow>
   ('s, 'x, 'l, 'm) process \<Rightarrow> ('s, 'x, 'l, 'm) process \<Rightarrow> bool"
  for W F Q
where
  returned:
    "ended c = None \<Longrightarrow> loop c = AtFile [] \<Longrightarrow>
     step W F Q c (c\<lparr>loop := Leaving Done\<rparr>)"
| open_failed:
    "ended c = None \<Longrightarrow> loop c = AtFile (f # fs) \<Longrightarrow> Open W f = Inl err \<Longrightarrow>
     step W F Q c
       (c\<lparr>loop := Leaving (Fatal err),
          trace := trace c @ (if verbose F then [PrintFile f] else []) @ [OpenCall f]\<rparr>)"
| opened:
    "ended c = None \<Longrightarrow> loop c = AtFile (f # fs) \<Longrightarrow> Open W f = Inr rs \<Longrightarrow>
     step W F Q c
       (c\<lparr>loop := AtRead rs fs,
          trace := trace c @ (if verbose F then [PrintFile f] else []) @ [OpenCall f]\<rparr>)"
| end_of_file:
    "ended c = None \<Longrightarrow> loop c = AtRead [] fs \<Longrightarrow>
     step W F Q c (c\<lparr>loop := AtFile fs\<rparr>)"
| read_failed:
    "ended c = None \<Longrightarrow> loop c = AtRead (ReadError err # rs) fs \<Longrightarrow>
     step W F Q c (c\<lparr>loop := Leaving (Panicked err)\<rparr>)"
| pass:
    "ended c = None \<Longrightarrow> loop c = AtRead (Block now msr # rs) fs \<Longrightarrow>
     process_block W F now msr (channels c) (rejected c) = (evs, state1, missing1, out) \<Longrightarrow>
     step W F Q c
       (c\<lparr>loop := (case out of None \<Rightarrow> AtRead rs fs | Some m \<Rightarrow> AtSend m rs fs),
          channels := state1, rejected := missing1, trace := trace c @ evs\<rparr>)"
| hand_over:
    "ended c = None \<Longrightarrow> loop c = AtSend m rs fs \<Longrightarrow> worker c = Waiting \<Longrightarrow>
     step W F Q c (c\<lparr>loop := AtRead rs fs, worker := Taken m, trace := trace c @ [Emit m]\<rparr>)"
| marshal_failed:
    "ended c = None \<Longrightarrow> worker c = Taken m \<Longrightarrow> Marshal W m = Inl err \<Longrightarrow>
     step W F Q c (c\<lparr>worker := Panicking err\<rparr>)"
| marshalled:
    "ended c = None \<Longrightarrow> worker c = Taken m \<Longrightarrow> Marshal W m = Inr mm \<Longrightarrow>
     step W F Q c (c\<lparr>worker := Encoded mm\<rparr>)"
| shown:
    "ended c = None \<Longrightarrow> worker c = Encoded mm \<Longrightarrow>
     step W F Q c
       (c\<lparr>worker := Shown mm, trace := trace c @ (if verbose F then [Println mm] else [])\<rparr>)"
| not_sent:
    "ended c = None \<Longrightarrow> worker c = Shown mm \<Longrightarrow> dryrun F \<Longrightarrow>
     step W F Q c (c\<lparr>worker := Waiting\<rparr>)"
| no_queue:
    "ended c = None \<Longrightarrow> worker c = Shown mm \<Longrightarrow> \<not> dryrun F \<Longrightarrow> Q = None \<Longrightarrow>
     step W F Q c (c\<lparr>worker := Panicking ''nil pointer dereference''\<rparr>)"
| sent:
    "ended c = None \<Longrightarrow> worker c = Shown mm \<Longrightarrow> \<not> dryrun F \<Longrightarrow> Q = Some q \<Longrightarrow>
     SendMessage W t q mm = None \<Longrightarrow>
     step W F Q c (c\<lparr>worker := Waiting, trace := trace c @ [Send mm]\<rparr>)"
| send_failed:
    "ended c = None \<Longrightarrow> worker c = Shown mm \<Longrightarrow> \<not> dryrun F \<Longrightarrow> Q = Some q \<Longrightarrow>
     SendMessage W t q mm = Some err \<Longrightarrow>
     step W F Q c (c\<lparr>worker := Panicking err, trace := trace c @ [Send mm]\<rparr>)"
| left:
    "ended c = None \<Longrightarrow> loop c = Leaving x \<Longrightarrow>
     step W F Q c (c\<lparr>ended := Some x\<rparr>)"
| crashed:
    "ended c = None \<Longrightarrow> worker c = Panicking err \<Longrightarrow>
     step W F Q c (c\<lparr>ended := Some (Panicked err)\<rparr>)"

text \<open>
  Line 119: the process as the file loop begins. The goroutine waits, \<^verbatim>\<open>missing\<close> is
  empty, \<open>state\<close> is the map of the streams after \<^verbatim>\<open>Init\<close>.
\<close>

definition start :: "string list \<Rightarrow> (string \<rightharpoonup> 's) \<Rightarrow> ('s, 'x, 'l, 'm) process" where
  "start fs state =
    \<lparr>loop = AtFile fs, channels = state, rejected = Map.empty, worker = Waiting, trace = [],
     ended = None\<rparr>"

section \<open>Notions used by the statements\<close>

text \<open>The label handed to \<^verbatim>\<open>ProcessSamples\<close>: \<^verbatim>\<open>replace.Replace(source)\<close>.\<close>

abbreviation channel_label :: "'x MSRecord \<Rightarrow> string" where
  "channel_label msr \<equiv> Replace replace (TrimRight (Network msr @ ''.'' @ Station msr) NUL)"


text \<open>
  Whether a key can still be logged as unknown: 1 until \<^verbatim>\<open>missing\<close> holds it, 0 after.
\<close>

definition unrejected :: "(string \<rightharpoonup> string) \<Rightarrow> string \<Rightarrow> nat" where
  "unrejected missing k = (if missing k = None then 1 else 0)"

text \<open>Lines 51 to 63: the region and the queue name, from the flag or else the environment.\<close>

abbreviation region_of :: "('s, 'x, 'l, 'm, 'a, 'q) World \<Rightarrow> Flags \<Rightarrow> string" where
  "region_of W F \<equiv> (if region F = [] then Getenv W ''AWS_IMPACT_REGION'' else region F)"

abbreviation queue_of :: "('s, 'x, 'l, 'm, 'a, 'q) World \<Rightarrow> Flags \<Rightarrow> string" where
  "queue_of W F \<equiv> (if queue F = [] then Getenv W ''AWS_IMPACT_QUEUE'' else queue F)"

text \<open>
  The label in the words of the specification: the network and station codes joined by
  a dot, trailing NUL characters stripped, every underscore replaced by a dot.
\<close>

definition normalized_label :: "string \<Rightarrow> string \<Rightarrow> string" where
  "normalized_label net sta =
    map (\<lambda>c. if c = CHR ''_'' then CHR ''.'' else c)
      (rev (dropWhile (\<lambda>c. c = NUL) (rev (net @ ''.'' @ sta))))"

text \<open>
  The events of the file loop (lines 119 to 185), as opposed to those of the startup
  (lines 65 to 90).
\<close>

fun loop_event :: "('l, 'm) event \<Rightarrow> bool" where
  "loop_event (GetAuthCall k s t) = False"
| "loop_event (GetQueueCall r q) = False"
| "loop_event (LoadStreamsCall c) = False"
| "loop_event (InitCall s p l) = False"
| "loop_event _ = True"

text \<open>
  The arguments of the \<^verbatim>\<open>Init\<close> calls of a run, in order: key, probation window, level.
\<close>

fun init_calls :: "('l, 'm) event list \<Rightarrow> (string \<times> duration \<times> 32 word) list" where
  "init_calls [] = []"
| "init_calls (InitCall s p l # es) = (s, p, l) # init_calls es"
| "init_calls (e # es) = init_calls es"

text \<open>
  The events that touch the queue service: opening the connection (lines 66 to 79) and
  \<^verbatim>\<open>Q.SendMessage\<close> (line 111).
\<close>

fun queue_event :: "('l, 'm) event \<Rightarrow> bool" where
  "queue_event (GetAuthCall k s t) = True"
| "queue_event (GetQueueCall r q) = True"
| "queue_event (Send s) = True"
| "queue_event _ = False"

section \<open>The configuration loader of the specification\<close>

text \<open>
  Modelled from the spec: \<^verbatim>\<open>impact.LoadStreams\<close> is not in the source (\<^verbatim>\<open>main\<close> only calls
  it and gets a map back). Section 3 of the specification: a \<open>StreamConfig\<close> holds
  calibration parameters, an ordered threshold table of amplitude breakpoints and
  levels, non-decreasing in both, and optional overrides of the probation window and
  the sensitivity level.
\<close>

record ('c, 'a) StreamConfig =
  calibration :: 'c
  thresholds :: "('a \<times> int) list"
  probationOverride :: "duration option"
  sensitivityOverride :: "int option"

text \<open>
  Modelled from the spec: the invariant of a threshold table, missing with
  \<^verbatim>\<open>impact.LoadStreams\<close>. Each breakpoint is at least the one before it, and so is each
  level.
\<close>

fun nondecreasing :: "('a :: linorder \<times> int) list \<Rightarrow> bool" where
  "nondecreasing [] = True"
| "nondecreasing [r] = True"
| "nondecreasing ((a, l) # (b, m) # rest) = (a \<le> b \<and> l \<le> m \<and> nondecreasing ((b, m) # rest))"

text \<open>
  Modelled from the spec: the error of section 7 that \<^verbatim>\<open>impact.LoadStreams\<close>, missing from
  the source, ends the run with.
\<close>

definition ConfigError :: error where
  "ConfigError = ''ConfigError''"

text \<open>
  Modelled from the spec: \<open>LoadConfig\<close> of section 4.1, for the missing
  \<^verbatim>\<open>impact.LoadStreams\<close>. The format is left open there, so reading the source is a
  parameter: \<open>decode\<close> gives the entries in the order written, or \<open>None\<close> for malformed
  input. Loading fails with \<open>ConfigError\<close> on malformed input, on a key written twice
  and on a threshold table that is not non-decreasing; otherwise it returns the
  mapping.
\<close>

definition LoadConfig ::
  "('src \<Rightarrow> (string \<times> ('c, 'a :: linorder) StreamConfig) list option) \<Rightarrow> 'src \<Rightarrow>
   error + (string \<rightharpoonup> ('c, 'a) StreamConfig)"
where
  "LoadConfig decode source =
    (case decode source of
       None \<Rightarrow> Inl ConfigError
     | Some entries \<Rightarrow>
        if \<not> distinct (map fst entries) then Inl ConfigError
        else if \<not> list_all (\<lambda>(k, c). nondecreasing (thresholds c)) entries then Inl ConfigError
        else Inr (map_of entries))"

text \<open>
  Modelled from the spec: what \<^verbatim>\<open>impact.LoadStreams\<close>, missing from the source, hands to
  \<^verbatim>\<open>main\<close>: the process ends on a \<open>ConfigError\<close> (section 7), otherwise each configured
  key gets the stream \<open>mk\<close> makes from its configuration.
\<close>

definition LoadStreams_spec ::
  "('src \<Rightarrow> (string \<times> ('c, 'a :: linorder) StreamConfig) list option) \<Rightarrow>
   (('c, 'a) StreamConfig \<Rightarrow> 's) \<Rightarrow> 'src \<Rightarrow> error + (string \<rightharpoonup> 's)"
where
  "LoadStreams_spec decode mk source =
    (case LoadConfig decode source of
       Inl err \<Rightarrow> Inl err
     | Inr m \<Rightarrow> Inr (\<lambda>k. map_option mk (m k)))"

section \<open>An example world\<close>

text \<open>
  Package \<^verbatim>\<open>impact\<close>, the decoder and the queue are parameters of the model. The
  examples below run the program in this world: two configured channels, a stream that
  waits for its probation to pass and then reports a level when it differs from the
  last one reported, and one file of five blocks, two of them of an unknown channel.
\<close>

record Channel =
  armedAt :: time
  lastLevel :: "int option"

record 'l Notice = "'l Message" +
  Label :: string
  Key :: string

definition sample_level :: "int list \<Rightarrow> int" where
  "sample_level xs =
    (let peak = fold (\<lambda>x m. max \<bar>x\<bar> m) xs 0
     in if 500 \<le> peak then 2 else if 100 \<le> peak then 1 else 0)"

definition sample_streams :: "string \<rightharpoonup> Channel" where
  "sample_streams =
    [''NZ_WEL_10_HNZ'' \<mapsto> \<lparr>armedAt = 0, lastLevel = None\<rparr>,
     ''NZ_KHZ_10_HNZ'' \<mapsto> \<lparr>armedAt = 0, lastLevel = None\<rparr>]"

definition armed_streams :: "string \<rightharpoonup> Channel" where
  "armed_streams =
    [''NZ_WEL_10_HNZ'' \<mapsto> \<lparr>armedAt = 1600 * Second, lastLevel = Some 0\<rparr>,
     ''NZ_KHZ_10_HNZ'' \<mapsto> \<lparr>armedAt = 1600 * Second, lastLevel = None\<rparr>]"

definition sample_block :: "string \<Rightarrow> string \<Rightarrow> time \<Rightarrow> int list \<Rightarrow> int list MSRecord" where
  "sample_block sta src t xs =
    \<lparr>Network = ''NZ'', Station = sta @ [NUL, NUL], SrcName = src, Starttime = t,
     DataSamples = Inr xs\<rparr>"

definition sample_reads :: "int list read list" where
  "sample_reads =
    [Block (2000 * Second + 7) (sample_block ''WEL'' ''NZ_WEL_10_HNZ'' (1900 * Second) [3, -50, 20]),
     Block (2001 * Second + 7) (sample_block ''XXX'' ''NZ_XXX_10_HNZ'' (1901 * Second) [1]),
     Block (2002 * Second + 7) (sample_block ''WEL'' ''NZ_WEL_10_HNZ'' (1902 * Second) [50, 1]),
     Block (2003 * Second + 7) (sample_block ''XXX'' ''NZ_XXX_10_HNZ'' (1903 * Second) [2]),
     Block (2004 * Second + 7) (sample_block ''WEL'' ''NZ_WEL_10_HNZ'' (1904 * Second) [-600])]"

definition sample_world :: "(Channel, int list, int, unit Notice_ext, unit, unit) World" where
  "sample_world =
    \<lparr> Getenv = (\<lambda>v. if v = ''AWS_IMPACT_REGION'' then ''ap-southeast-2'' else []),
      Now = 1000 * Second,
      GetAuth = (\<lambda>k s t. Inr ()),
      GetQueue = (\<lambda>a r q. Inr ()),
      SendMessage = (\<lambda>now q s. None),
      Marshal = (\<lambda>m. Inr (Label m @ '' '' @ Key m)),
      Open = (\<lambda>f. if f = ''a.mseed'' then Inr sample_reads else Inl ''no such file''),
      LoadStreams = (\<lambda>c. Inr sample_streams),
      rangeOrder = (\<lambda>m. [''NZ_KHZ_10_HNZ'', ''NZ_WEL_10_HNZ'']),
      Init = (\<lambda>now st s p l.
         if sint l < 0 \<or> 3 < sint l then Inl ''invalid level''
         else Inr (st\<lparr>armedAt := now + p, lastLevel := None\<rparr>)),
      ProcessSamples = (\<lambda>now st lbl k t xs.
         if xs = [] then (Inl ''no samples'', st)
         else (Inr \<lparr>Time = t, MMI = sample_level xs, Label = lbl, Key = k\<rparr>, st)),
      Flush = (\<lambda>now st d l.
         if now < armedAt st \<or> lastLevel st = Some l then (False, st)
         else (True, st\<lparr>lastLevel := Some l\<rparr>)) \<rparr>"

definition sample_flags :: Flags where
  "sample_flags =
    \<lparr>verbose = True, dryrun = False, replay = False, config = ''impact.json'', region = [],
     queue = ''impact'', key = [], secret = [], probation = 10 * Minute, level = 2,
     args = [''a.mseed'']\<rparr>"

text \<open>
  Two configuration sources for the loader of the specification, already decoded: one
  with a key written twice, one whose thresholds go down. A malformed source is
  \<open>None\<close>.
\<close>

definition sample_config :: "(int \<times> int) list \<Rightarrow> (unit, int) StreamConfig" where
  "sample_config table =
    \<lparr>calibration = (), thresholds = table, probationOverride = None, sensitivityOverride = None\<rparr>"

definition duplicate_source :: "(string \<times> (unit, int) StreamConfig) list option" where
  "duplicate_source =
    Some [(''NZ_WEL_10_HNZ'', sample_config [(0, 0), (100, 1), (500, 2)]),
          (''NZ_WEL_10_HNZ'', sample_config [(0, 0), (200, 1)])]"

definition falling_source :: "(string \<times> (unit, int) StreamConfig) list option" where
  "falling_source =
    Some [(''NZ_WEL_10_HNZ'', sample_config [(0, 0), (100, 1), (500, 2)]),
          (''NZ_KHZ_10_HNZ'', sample_config [(0, 0), (500, 2), (100, 1)])]"

definition config_world ::
  "(string \<times> (unit, int) StreamConfig) list option \<Rightarrow>
   (Channel, int list, int, unit Notice_ext, unit, unit) World"
where
  "config_world source =
    sample_world\<lparr>LoadStreams :=
      \<lambda>c. LoadStreams_spec (\<lambda>s. s) (\<lambda>c. \<lparr>armedAt = 0, lastLevel = None\<rparr>) source\<rparr>"

text \<open>
  The streams as \<^verbatim>\<open>Init\<close> leaves them in the example run: the probation of ten minutes
  ends at 1600 seconds, nothing is emitted yet.
\<close>

definition ready_streams :: "string \<rightharpoonup> Channel" where
  "ready_streams =
    [''NZ_WEL_10_HNZ'' \<mapsto> \<lparr>armedAt = 1600 * Second, lastLevel = None\<rparr>,
     ''NZ_KHZ_10_HNZ'' \<mapsto> \<lparr>armedAt = 1600 * Second, lastLevel = None\<rparr>]"

text \<open>
  The example world with a queue that refuses every message.
\<close>

definition failing_world :: "(Channel, int list, int, unit Notice_ext, unit, unit) World" where
  "failing_world = sample_world\<lparr>SendMessage := \<lambda>now q s. Some ''queue unavailable''\<rparr>"

text \<open>
  The message of the first block of the example file.
\<close>

definition sample_notice :: "int Notice" where
  "sample_notice = \<lparr>Time = 1900 * Second, MMI = 0, Label = ''NZ.WEL'', Key = ''NZ_WEL_10_HNZ''\<rparr>"

text \<open>
  A run of the example file with the failing queue, at four moments. First: the file
  is open and the loop is about to read the first block.
\<close>

definition at_first_block :: "(Channel, int list, int, unit Notice_ext) process" where
  "at_first_block =
    \<lparr>loop = AtRead sample_reads [], channels = ready_streams, rejected = Map.empty,
     worker = Waiting, trace = [PrintFile ''a.mseed'', OpenCall ''a.mseed''], ended = None\<rparr>"

text \<open>
  Second: the pass of the first block is done. \<^verbatim>\<open>Flush\<close> has accepted level 0 and the
  loop stands at the send.
\<close>

definition flushed :: "(Channel, int list, int, unit Notice_ext) process" where
  "flushed =
    at_first_block
      \<lparr>loop := AtSend sample_notice (drop 1 sample_reads) [],
       channels := ready_streams(''NZ_WEL_10_HNZ'' \<mapsto> \<lparr>armedAt = 1600 * Second, lastLevel = Some 0\<rparr>),
       trace := trace at_first_block @
         [Lookup ''NZ_WEL_10_HNZ'', ProcessCall ''NZ.WEL'' ''NZ_WEL_10_HNZ'' (1900 * Second),
          FlushCall ''NZ_WEL_10_HNZ'' 0 0]\<rparr>"

text \<open>
  Third: the goroutine has taken the message, printed it, called the queue and got an
  error, and is in \<^verbatim>\<open>log.Panic\<close>; the process has not ended yet, and the loop has gone
  on to pass the second block, of an unknown channel.
\<close>

definition delivery_failed :: "(Channel, int list, int, unit Notice_ext) process" where
  "delivery_failed =
    flushed
      \<lparr>loop := AtRead (drop 2 sample_reads) [],
       rejected := [''NZ_XXX_10_HNZ'' \<mapsto> ''NZ_XXX_10_HNZ''],
       worker := Panicking ''queue unavailable'',
       trace := trace flushed @
         [Emit sample_notice, Println ''NZ.WEL NZ_WEL_10_HNZ'', Send ''NZ.WEL NZ_WEL_10_HNZ'',
          Lookup ''NZ_XXX_10_HNZ'', LogMissing ''NZ_XXX_10_HNZ'']\<rparr>"

text \<open>
  Fourth: the loop has passed the third block, of the first block's channel and level.
\<close>

definition next_pass :: "(Channel, int list, int, unit Notice_ext) process" where
  "next_pass =
    delivery_failed
      \<lparr>loop := AtRead (drop 3 sample_reads) [],
       trace := trace delivery_failed @
         [Lookup ''NZ_WEL_10_HNZ'', ProcessCall ''NZ.WEL'' ''NZ_WEL_10_HNZ'' (1902 * Second),
          FlushCall ''NZ_WEL_10_HNZ'' 0 0]\<rparr>"

section \<open>One block\<close>

lemma process_block_processed:
  assumes "missing (SrcName msr) = None"
      and "state (SrcName msr) = Some stream"
      and "DataSamples msr = Inr samples"
      and "ProcessSamples W now stream (channel_label msr) (SrcName msr) (Starttime msr) samples
             = (Inr message, stream1)"
  shows "process_block W F now msr state missing =
          ([Lookup (SrcName msr), ProcessCall (channel_label msr) (SrcName msr) (Starttime msr),
            FlushCall (SrcName msr) 0 (MMI message)],
           state(SrcName msr \<mapsto> snd (Flush W now stream1 0 (MMI message))), missing,
           if fst (Flush W now stream1 0 (MMI message))
           then Some (if replay F then message\<lparr>Time := Truncate now Second\<rparr> else message)
           else None)"
  using assms by (simp add: process_block_def Let_def split: prod.splits)

lemma deliver_not_Emit: "deliver W F Q now m = (devs, x) \<Longrightarrow> Emit m' \<notin> set devs"
  by (auto simp: deliver_def Let_def split: sum.splits option.splits if_splits)



section \<open>Counting log entries and lookups\<close>

lemma process_block_rejected:
  "missing (SrcName msr) = Some v \<Longrightarrow> process_block W F now msr state missing = ([], state, missing, None)"
  by (simp add: process_block_def Let_def)

lemma process_block_unknown:
  "missing (SrcName msr) = None \<Longrightarrow> state (SrcName msr) = None \<Longrightarrow>
   process_block W F now msr state missing =
     ([Lookup (SrcName msr), LogMissing (SrcName msr)], state,
      missing(SrcName msr \<mapsto> SrcName msr), None)"
  by (simp add: process_block_def Let_def)

lemma process_block_dom:
  "process_block W F now msr state missing = (evs, state1, missing1, out) \<Longrightarrow>
   (state1 k = None) = (state k = None)"
  by (auto simp: process_block_def Let_def split: option.splits sum.splits prod.splits if_splits)

lemma process_block_LogMissing:
  "process_block W F now msr state missing = (evs, state1, missing1, out) \<Longrightarrow>
   count_list evs (LogMissing k) + unrejected missing1 k \<le> unrejected missing k"
  by (auto simp: process_block_def Let_def unrejected_def split: option.splits sum.splits prod.splits if_splits)

lemma process_block_Lookup:
  "process_block W F now msr state missing = (evs, state1, missing1, out) \<Longrightarrow> state k = None \<Longrightarrow>
   count_list evs (Lookup k) + unrejected missing1 k \<le> unrejected missing k"
  by (auto simp: process_block_def Let_def unrejected_def split: option.splits sum.splits prod.splits if_splits)

lemma deliver_events:
  "deliver W F Q now m = (devs, x) \<Longrightarrow> set devs \<subseteq> range Println \<union> range Send"
  by (auto simp: deliver_def Let_def split: sum.splits option.splits if_splits)

lemma deliver_count_LogMissing:
  "deliver W F Q now m = (devs, x) \<Longrightarrow> count_list devs (LogMissing k) = 0"
  by (auto simp: deliver_def Let_def split: sum.splits option.splits if_splits)

lemma deliver_count_Lookup:
  "deliver W F Q now m = (devs, x) \<Longrightarrow> count_list devs (Lookup k) = 0"
  by (auto simp: deliver_def Let_def split: sum.splits option.splits if_splits)

lemma read_loop_dom:
  "read_loop W F Q rs state missing = (evs, state1, missing1, x) \<Longrightarrow>
   (state1 k = None) = (state k = None)"
proof (induction rs arbitrary: state missing evs state1 missing1 x)
  case Nil
  then show ?case by simp
next
  case (Cons r rs)
  show ?case
  proof (cases r)
    case (ReadError e)
    with Cons.prems show ?thesis by simp
  next
    case (Block now msr)
    obtain bevs s1 m1 out where pb: "process_block W F now msr state missing = (bevs, s1, m1, out)"
      by (cases "process_block W F now msr state missing")
    have d: "(s1 k = None) = (state k = None)"
      by (rule process_block_dom [OF pb])
    from Cons.prems Block pb d Cons.IH [of s1 m1] show ?thesis
      by (auto split: option.splits prod.splits)
  qed
qed

lemma read_loop_LogMissing:
  "read_loop W F Q rs state missing = (evs, state1, missing1, x) \<Longrightarrow>
   count_list evs (LogMissing k) + unrejected missing1 k \<le> unrejected missing k"
proof (induction rs arbitrary: state missing evs state1 missing1 x)
  case Nil
  then show ?case by simp
next
  case (Cons r rs)
  show ?case
  proof (cases r)
    case (ReadError e)
    with Cons.prems show ?thesis by simp
  next
    case (Block now msr)
    obtain bevs s1 m1 out where pb: "process_block W F now msr state missing = (bevs, s1, m1, out)"
      by (cases "process_block W F now msr state missing")
    have b: "count_list bevs (LogMissing k) + unrejected m1 k \<le> unrejected missing k"
      by (rule process_block_LogMissing [OF pb])
    obtain evs2 s2 m2 x2 where rl: "read_loop W F Q rs s1 m1 = (evs2, s2, m2, x2)"
      by (cases "read_loop W F Q rs s1 m1")
    have r: "count_list evs2 (LogMissing k) + unrejected m2 k \<le> unrejected m1 k"
      by (rule Cons.IH [OF rl])
    show ?thesis
    proof (cases out)
      case None
      with Cons.prems Block pb rl b r show ?thesis by auto
    next
      case (Some m)
      obtain devs dx where dl: "deliver W F Q now m = (devs, dx)"
        by (cases "deliver W F Q now m")
      have z: "count_list devs (LogMissing k) = 0"
        by (rule deliver_count_LogMissing [OF dl])
      from Cons.prems Block pb rl b r Some dl z show ?thesis
        by (cases dx) auto
    qed
  qed
qed


lemma read_loop_Lookup:
  "read_loop W F Q rs state missing = (evs, state1, missing1, x) \<Longrightarrow> state k = None \<Longrightarrow>
   count_list evs (Lookup k) + unrejected missing1 k \<le> unrejected missing k"
proof (induction rs arbitrary: state missing evs state1 missing1 x)
  case Nil
  then show ?case by simp
next
  case (Cons r rs)
  show ?case
  proof (cases r)
    case (ReadError e)
    with Cons.prems show ?thesis by simp
  next
    case (Block now msr)
    obtain bevs s1 m1 out where pb: "process_block W F now msr state missing = (bevs, s1, m1, out)"
      by (cases "process_block W F now msr state missing")
    have b: "count_list bevs (Lookup k) + unrejected m1 k \<le> unrejected missing k"
      by (rule process_block_Lookup [OF pb Cons.prems(2)])
    have u: "s1 k = None"
      using process_block_dom [OF pb, of k] Cons.prems(2) by simp
    obtain evs2 s2 m2 x2 where rl: "read_loop W F Q rs s1 m1 = (evs2, s2, m2, x2)"
      by (cases "read_loop W F Q rs s1 m1")
    have r: "count_list evs2 (Lookup k) + unrejected m2 k \<le> unrejected m1 k"
      by (rule Cons.IH [OF rl u])
    show ?thesis
    proof (cases out)
      case None
      with Cons.prems Block pb rl b r show ?thesis by auto
    next
      case (Some m)
      obtain devs dx where dl: "deliver W F Q now m = (devs, dx)"
        by (cases "deliver W F Q now m")
      have z: "count_list devs (Lookup k) = 0"
        by (rule deliver_count_Lookup [OF dl])
      from Cons.prems Block pb rl b r Some dl z show ?thesis
        by (cases dx) auto
    qed
  qed
qed

lemma file_loop_dom:
  "file_loop W F Q fs state missing = (evs, state1, missing1, x) \<Longrightarrow>
   (state1 k = None) = (state k = None)"
proof (induction fs arbitrary: state missing evs state1 missing1 x)
  case Nil
  then show ?case by simp
next
  case (Cons f fs)
  show ?case
  proof (cases "Open W f")
    case (Inl err)
    with Cons.prems show ?thesis by (simp add: Let_def)
  next
    case (Inr rs)
    obtain evs1 s1 m1 x1 where rl: "read_loop W F Q rs state missing = (evs1, s1, m1, x1)"
      by (cases "read_loop W F Q rs state missing")
    have d: "(s1 k = None) = (state k = None)"
      by (rule read_loop_dom [OF rl])
    from Cons.prems Inr rl d Cons.IH [of s1 m1] show ?thesis
      by (auto simp: Let_def split: option.splits prod.splits)
  qed
qed

lemma file_loop_LogMissing:
  "file_loop W F Q fs state missing = (evs, state1, missing1, x) \<Longrightarrow>
   count_list evs (LogMissing k) + unrejected missing1 k \<le> unrejected missing k"
proof (induction fs arbitrary: state missing evs state1 missing1 x)
  case Nil
  then show ?case by simp
next
  case (Cons f fs)
  show ?case
  proof (cases "Open W f")
    case (Inl err)
    with Cons.prems show ?thesis by (auto simp: Let_def)
  next
    case (Inr rs)
    obtain evs1 s1 m1 x1 where rl: "read_loop W F Q rs state missing = (evs1, s1, m1, x1)"
      by (cases "read_loop W F Q rs state missing")
    have a: "count_list evs1 (LogMissing k) + unrejected m1 k \<le> unrejected missing k"
      by (rule read_loop_LogMissing [OF rl])
    obtain evs2 s2 m2 x2 where fl: "file_loop W F Q fs s1 m1 = (evs2, s2, m2, x2)"
      by (cases "file_loop W F Q fs s1 m1")
    have b: "count_list evs2 (LogMissing k) + unrejected m2 k \<le> unrejected m1 k"
      by (rule Cons.IH [OF fl])
    from Cons.prems Inr rl fl a b show ?thesis
      by (cases x1) (auto simp: Let_def)
  qed
qed

lemma file_loop_Lookup:
  "file_loop W F Q fs state missing = (evs, state1, missing1, x) \<Longrightarrow> state k = None \<Longrightarrow>
   count_list evs (Lookup k) + unrejected missing1 k \<le> unrejected missing k"
proof (induction fs arbitrary: state missing evs state1 missing1 x)
  case Nil
  then show ?case by simp
next
  case (Cons f fs)
  show ?case
  proof (cases "Open W f")
    case (Inl err)
    with Cons.prems show ?thesis by (auto simp: Let_def)
  next
    case (Inr rs)
    obtain evs1 s1 m1 x1 where rl: "read_loop W F Q rs state missing = (evs1, s1, m1, x1)"
      by (cases "read_loop W F Q rs state missing")
    have a: "count_list evs1 (Lookup k) + unrejected m1 k \<le> unrejected missing k"
      by (rule read_loop_Lookup [OF rl Cons.prems(2)])
    have u: "s1 k = None"
      using read_loop_dom [OF rl, of k] Cons.prems(2) by simp
    obtain evs2 s2 m2 x2 where fl: "file_loop W F Q fs s1 m1 = (evs2, s2, m2, x2)"
      by (cases "file_loop W F Q fs s1 m1")
    have b: "count_list evs2 (Lookup k) + unrejected m2 k \<le> unrejected m1 k"
      by (rule Cons.IH [OF fl u])
    from Cons.prems Inr rl fl a b show ?thesis
      by (cases x1) (auto simp: Let_def)
  qed
qed

lemma init_streams_events:
  "init_streams W p l ks state = (evs, r) \<Longrightarrow> e \<in> set evs \<Longrightarrow> \<exists>s. e = InitCall s p (ucast l)"
proof (induction ks arbitrary: state evs r)
  case Nil
  then show ?case by simp
next
  case (Cons k ks)
  then show ?case
    by (fastforce split: option.splits sum.splits prod.splits)
qed

lemma init_streams_dom:
  "init_streams W p l ks state = (evs, Inr state1) \<Longrightarrow> (state1 k = None) = (state k = None)"
proof (induction ks arbitrary: state evs)
  case Nil
  then show ?case by simp
next
  case (Cons s ks)
  from Cons.prems obtain stream where st: "state s = Some stream"
    by (cases "state s") auto
  from Cons.prems st obtain stream1 where i: "Init W (Now W) stream s p (ucast l) = Inr stream1"
    by (cases "Init W (Now W) stream s p (ucast l)") auto
  from Cons.prems st i obtain evs' where r: "init_streams W p l ks (state(s \<mapsto> stream1)) = (evs', Inr state1)"
    by (auto split: prod.splits)
  from Cons.IH [OF r] st show ?case
    by (auto split: if_splits)
qed

lemma connect_events:
  "connect W F r q = (evs, res) \<Longrightarrow> e \<in> set evs \<Longrightarrow> (\<exists>k s t. e = GetAuthCall k s t) \<or> (\<exists>a b. e = GetQueueCall a b)"
  by (auto simp: connect_def split: if_splits sum.splits)



lemma main_started:
  assumes "region_of W F \<noteq> []" and "queue_of W F \<noteq> []"
      and "connect W F (region_of W F) (queue_of W F) = (evs0, Inr Q)"
      and "LoadStreams W (config F) = Inr state"
      and "init_streams W (probation F) (level F) (rangeOrder W state) state = (evs1, Inr state1)"
      and "file_loop W F Q (args F) state1 Map.empty = (evs2, state2, missing2, x)"
  shows "main W F = (evs0 @ LoadStreamsCall (config F) # evs1 @ evs2, x)"
  using assms by (simp add: main_def Let_def)

lemma main_cases [case_names no_region no_queue no_connect no_config no_init run]:
  obtains "main W F = ([], Fatal ''unable to find region in environment or command line [AWS_IMPACT_REGION]'')"
  | "main W F = ([], Fatal ''unable to find queue in environment or command line [AWS_IMPACT_QUEUE]'')"
  | evs0 err where "connect W F (region_of W F) (queue_of W F) = (evs0, Inl err)"
      and "main W F = (evs0, Fatal err)"
  | evs0 Q err where "connect W F (region_of W F) (queue_of W F) = (evs0, Inr Q)"
      and "LoadStreams W (config F) = Inl err"
      and "main W F = (evs0 @ [LoadStreamsCall (config F)], Fatal err)"
  | evs0 Q state evs1 x where "connect W F (region_of W F) (queue_of W F) = (evs0, Inr Q)"
      and "LoadStreams W (config F) = Inr state"
      and "init_streams W (probation F) (level F) (rangeOrder W state) state = (evs1, Inl x)"
      and "main W F = (evs0 @ LoadStreamsCall (config F) # evs1, x)"
  | evs0 Q state evs1 state1 evs2 state2 missing2 x
    where "connect W F (region_of W F) (queue_of W F) = (evs0, Inr Q)"
      and "LoadStreams W (config F) = Inr state"
      and "init_streams W (probation F) (level F) (rangeOrder W state) state = (evs1, Inr state1)"
      and "file_loop W F Q (args F) state1 Map.empty = (evs2, state2, missing2, x)"
      and "main W F = (evs0 @ LoadStreamsCall (config F) # evs1 @ evs2, x)"
proof (cases "region_of W F = []")
  case True
  then have "main W F = ([], Fatal ''unable to find region in environment or command line [AWS_IMPACT_REGION]'')"
    by (simp add: main_def Let_def)
  then show ?thesis by (rule that(1))
next
  case r: False
  show ?thesis
  proof (cases "queue_of W F = []")
    case True
    with r have "main W F = ([], Fatal ''unable to find queue in environment or command line [AWS_IMPACT_QUEUE]'')"
      by (simp add: main_def Let_def)
    then show ?thesis by (rule that(2))
  next
    case q: False
    obtain evs0 res where c: "connect W F (region_of W F) (queue_of W F) = (evs0, res)"
      by (cases "connect W F (region_of W F) (queue_of W F)")
    show ?thesis
    proof (cases res)
      case (Inl err)
      with r q c have "main W F = (evs0, Fatal err)"
        by (simp add: main_def Let_def)
      with c Inl show ?thesis by (auto intro: that(3))
    next
      case (Inr Q)
      note c' = c [unfolded Inr]
      show ?thesis
      proof (cases "LoadStreams W (config F)")
        case (Inl err)
        with r q c' have "main W F = (evs0 @ [LoadStreamsCall (config F)], Fatal err)"
          by (simp add: main_def Let_def)
        with c' Inl show ?thesis by (auto intro: that(4))
      next
        case l: (Inr state)
        obtain evs1 ires where i: "init_streams W (probation F) (level F) (rangeOrder W state) state = (evs1, ires)"
          by (cases "init_streams W (probation F) (level F) (rangeOrder W state) state")
        show ?thesis
        proof (cases ires)
          case (Inl x)
          with r q c' l i have "main W F = (evs0 @ LoadStreamsCall (config F) # evs1, x)"
            by (simp add: main_def Let_def)
          with c' l i Inl show ?thesis by (auto intro: that(5))
        next
          case (Inr state1)
          note i' = i [unfolded Inr]
          obtain evs2 state2 missing2 x where f: "file_loop W F Q (args F) state1 Map.empty = (evs2, state2, missing2, x)"
            by (cases "file_loop W F Q (args F) state1 Map.empty")
          have "main W F = (evs0 @ LoadStreamsCall (config F) # evs1 @ evs2, x)"
            by (rule main_started [OF r q c' l i' f])
          with c' l i' f show ?thesis by (auto intro: that(6))
        qed
      qed
    qed
  qed
qed


lemma connect_count_LogMissing:
  "connect W F r q = (evs, res) \<Longrightarrow> count_list evs (LogMissing k) = 0"
  using connect_events [of W F r q evs res "LogMissing k"] by (auto simp: count_list_0_iff)

lemma connect_count_Lookup:
  "connect W F r q = (evs, res) \<Longrightarrow> count_list evs (Lookup k) = 0"
  using connect_events [of W F r q evs res "Lookup k"] by (auto simp: count_list_0_iff)

lemma init_streams_count_LogMissing:
  "init_streams W p l ks state = (evs, res) \<Longrightarrow> count_list evs (LogMissing k) = 0"
  using init_streams_events [of W p l ks state evs res "LogMissing k"] by (auto simp: count_list_0_iff)

lemma init_streams_count_Lookup:
  "init_streams W p l ks state = (evs, res) \<Longrightarrow> count_list evs (Lookup k) = 0"
  using init_streams_events [of W p l ks state evs res "Lookup k"] by (auto simp: count_list_0_iff)

lemma main_LogMissing: "count_list (fst (main W F)) (LogMissing k) \<le> 1"
proof (cases rule: main_cases [of W F])
  case no_region
  then show ?thesis by simp
next
  case no_queue
  then show ?thesis by simp
next
  case (no_connect evs0 err)
  then show ?thesis by (simp add: connect_count_LogMissing)
next
  case (no_config evs0 Q err)
  then show ?thesis by (simp add: connect_count_LogMissing)
next
  case (no_init evs0 Q state evs1 x)
  then show ?thesis by (simp add: connect_count_LogMissing init_streams_count_LogMissing)
next
  case (run evs0 Q state evs1 state1 evs2 state2 missing2 x)
  from file_loop_LogMissing [OF run(4), of k] have "count_list evs2 (LogMissing k) \<le> 1"
    by (simp add: unrejected_def split: if_splits)
  with run show ?thesis
    by (simp add: connect_count_LogMissing init_streams_count_LogMissing)
qed

lemma main_Lookup:
  assumes "LoadStreams W (config F) = Inr state" and "state k = None"
  shows "count_list (fst (main W F)) (Lookup k) \<le> 1"
proof (cases rule: main_cases [of W F])
  case no_region
  then show ?thesis by simp
next
  case no_queue
  then show ?thesis by simp
next
  case (no_connect evs0 err)
  then show ?thesis by (simp add: connect_count_Lookup)
next
  case (no_config evs0 Q err)
  then show ?thesis by (simp add: connect_count_Lookup)
next
  case (no_init evs0 Q state evs1 x)
  then show ?thesis by (simp add: connect_count_Lookup init_streams_count_Lookup)
next
  case (run evs0 Q state' evs1 state1 evs2 state2 missing2 x)
  with assms have "state' = state" by simp
  with init_streams_dom [OF run(3), of k] assms(2) have "state1 k = None" by simp
  from file_loop_Lookup [OF run(4) this] have "count_list evs2 (Lookup k) \<le> 1"
    by (simp add: unrejected_def split: if_splits)
  with run show ?thesis
    by (simp add: connect_count_Lookup init_streams_count_Lookup)
qed

lemma sample_run:
  "main sample_world sample_flags =
    ([GetAuthCall [] [] 2800000000000,
      GetQueueCall ''ap-southeast-2'' ''impact'',
      LoadStreamsCall ''impact.json'',
      InitCall ''NZ_KHZ_10_HNZ'' 600000000000 2,
      InitCall ''NZ_WEL_10_HNZ'' 600000000000 2,
      PrintFile ''a.mseed'',
      OpenCall ''a.mseed'',
      Lookup ''NZ_WEL_10_HNZ'',
      ProcessCall ''NZ.WEL'' ''NZ_WEL_10_HNZ'' 1900000000000,
      FlushCall ''NZ_WEL_10_HNZ'' 0 0,
      Emit \<lparr>Time = 1900000000000, MMI = 0, Label = ''NZ.WEL'', Key = ''NZ_WEL_10_HNZ''\<rparr>,
      Println ''NZ.WEL NZ_WEL_10_HNZ'',
      Send ''NZ.WEL NZ_WEL_10_HNZ'',
      Lookup ''NZ_XXX_10_HNZ'',
      LogMissing ''NZ_XXX_10_HNZ'',
      Lookup ''NZ_WEL_10_HNZ'',
      ProcessCall ''NZ.WEL'' ''NZ_WEL_10_HNZ'' 1902000000000,
      FlushCall ''NZ_WEL_10_HNZ'' 0 0,
      Lookup ''NZ_WEL_10_HNZ'',
      ProcessCall ''NZ.WEL'' ''NZ_WEL_10_HNZ'' 1904000000000,
      FlushCall ''NZ_WEL_10_HNZ'' 0 2,
      Emit \<lparr>Time = 1904000000000, MMI = 2, Label = ''NZ.WEL'', Key = ''NZ_WEL_10_HNZ''\<rparr>,
      Println ''NZ.WEL NZ_WEL_10_HNZ'',
      Send ''NZ.WEL NZ_WEL_10_HNZ''],
     Done)"
  by (simp add: main_def sample_world_def sample_flags_def Let_def connect_def sample_streams_def
      sample_reads_def sample_block_def process_block_def deliver_def sample_level_def
      TrimRight_def trimRightByte.simps NUL_def Replace_def replace_def NewReplacer_def Second_def Minute_def)

section \<open>Unknown channels\<close>

text \<open>
  C2. A block whose key is neither rejected before nor configured is skipped: it looks
  the key up, writes the log entry, records the key in \<^verbatim>\<open>missing\<close>, leaves the streams
  alone, and calls neither \<^verbatim>\<open>ProcessSamples\<close> nor \<^verbatim>\<open>Flush\<close>. A block whose key is in
  \<^verbatim>\<open>missing\<close> does nothing at all: no lookup, no log entry. Over a whole run, whatever
  the files hold, the log entry for a key is written at most once, and a key that
  \<^verbatim>\<open>LoadStreams\<close> did not configure is looked up at most once.
\<close>

theorem unknown_key_logged_once:
  "(missing (SrcName msr) = None \<longrightarrow> state (SrcName msr) = None \<longrightarrow>
      process_block W F now msr state missing =
        ([Lookup (SrcName msr), LogMissing (SrcName msr)], state,
         missing(SrcName msr \<mapsto> SrcName msr), None))
   \<and> (missing (SrcName msr) \<noteq> None \<longrightarrow>
        process_block W F now msr state missing = ([], state, missing, None))
   \<and> count_list (fst (main W F)) (LogMissing k) \<le> 1
   \<and> (LoadStreams W (config F) = Inr streams \<longrightarrow> streams k = None \<longrightarrow>
        count_list (fst (main W F)) (Lookup k) \<le> 1)"
  using process_block_unknown [of missing msr state W F now]
    process_block_rejected [of missing msr _ W F now state]
    main_LogMissing [of W F k] main_Lookup [of W F streams k]
  by auto

theorem unknown_key_logged_once_witness:
  "[''NZ_YYY_10_HNZ'' \<mapsto> ''NZ_YYY_10_HNZ'']
      (SrcName (sample_block ''XXX'' ''NZ_XXX_10_HNZ'' (1901 * Second) [1])) = None
   \<and> armed_streams (SrcName (sample_block ''XXX'' ''NZ_XXX_10_HNZ'' (1901 * Second) [1])) = None
   \<and> process_block sample_world sample_flags (2001 * Second + 7)
        (sample_block ''XXX'' ''NZ_XXX_10_HNZ'' (1901 * Second) [1]) armed_streams
        [''NZ_YYY_10_HNZ'' \<mapsto> ''NZ_YYY_10_HNZ'']
       = ([Lookup ''NZ_XXX_10_HNZ'', LogMissing ''NZ_XXX_10_HNZ''], armed_streams,
          [''NZ_YYY_10_HNZ'' \<mapsto> ''NZ_YYY_10_HNZ'', ''NZ_XXX_10_HNZ'' \<mapsto> ''NZ_XXX_10_HNZ''], None)
   \<and> [''NZ_YYY_10_HNZ'' \<mapsto> ''NZ_YYY_10_HNZ'', ''NZ_XXX_10_HNZ'' \<mapsto> ''NZ_XXX_10_HNZ'']
        (SrcName (sample_block ''XXX'' ''NZ_XXX_10_HNZ'' (1903 * Second) [2])) \<noteq> None
   \<and> process_block sample_world sample_flags (2003 * Second + 7)
        (sample_block ''XXX'' ''NZ_XXX_10_HNZ'' (1903 * Second) [2]) armed_streams
        [''NZ_YYY_10_HNZ'' \<mapsto> ''NZ_YYY_10_HNZ'', ''NZ_XXX_10_HNZ'' \<mapsto> ''NZ_XXX_10_HNZ'']
       = ([], armed_streams,
          [''NZ_YYY_10_HNZ'' \<mapsto> ''NZ_YYY_10_HNZ'', ''NZ_XXX_10_HNZ'' \<mapsto> ''NZ_XXX_10_HNZ''], None)
   \<and> LoadStreams sample_world (config sample_flags) = Inr sample_streams
   \<and> sample_streams ''NZ_XXX_10_HNZ'' = None
   \<and> count_list (fst (main sample_world sample_flags)) (LogMissing ''NZ_XXX_10_HNZ'') \<le> 1
   \<and> count_list (fst (main sample_world sample_flags)) (Lookup ''NZ_XXX_10_HNZ'') \<le> 1"
proof -
  let ?b1 = "sample_block ''XXX'' ''NZ_XXX_10_HNZ'' (1901 * Second) [1]"
  let ?b2 = "sample_block ''XXX'' ''NZ_XXX_10_HNZ'' (1903 * Second) [2]"
  let ?m1 = "[''NZ_YYY_10_HNZ'' \<mapsto> ''NZ_YYY_10_HNZ'']"
  let ?m2 = "[''NZ_YYY_10_HNZ'' \<mapsto> ''NZ_YYY_10_HNZ'', ''NZ_XXX_10_HNZ'' \<mapsto> ''NZ_XXX_10_HNZ'']"
  have h1: "?m1 (SrcName ?b1) = None"
    by (simp add: sample_block_def)
  have h2: "armed_streams (SrcName ?b1) = None"
    by (simp add: sample_block_def armed_streams_def)
  have h3: "?m2 (SrcName ?b2) \<noteq> None"
    by (simp add: sample_block_def)
  have h4: "LoadStreams sample_world (config sample_flags) = Inr sample_streams"
    by (simp add: sample_world_def)
  have h5: "sample_streams ''NZ_XXX_10_HNZ'' = None"
    by (simp add: sample_streams_def)
  have n1: "SrcName ?b1 = ''NZ_XXX_10_HNZ''"
    by (simp add: sample_block_def)
  from unknown_key_logged_once [of ?m1 ?b1 armed_streams sample_world sample_flags
      "2001 * Second + 7" "''NZ_XXX_10_HNZ''" sample_streams] h1 h2 h4 h5
  have a: "process_block sample_world sample_flags (2001 * Second + 7) ?b1 armed_streams ?m1
             = ([Lookup (SrcName ?b1), LogMissing (SrcName ?b1)], armed_streams,
                ?m1(SrcName ?b1 \<mapsto> SrcName ?b1), None)"
    and c: "count_list (fst (main sample_world sample_flags)) (LogMissing ''NZ_XXX_10_HNZ'') \<le> 1"
    and d: "count_list (fst (main sample_world sample_flags)) (Lookup ''NZ_XXX_10_HNZ'') \<le> 1"
    by blast+
  from unknown_key_logged_once [of ?m2 ?b2 armed_streams sample_world sample_flags
      "2003 * Second + 7" "''NZ_XXX_10_HNZ''" sample_streams] h3
  have b: "process_block sample_world sample_flags (2003 * Second + 7) ?b2 armed_streams ?m2
             = ([], armed_streams, ?m2, None)"
    by blast
  from a have a': "process_block sample_world sample_flags (2001 * Second + 7) ?b1 armed_streams ?m1
             = ([Lookup ''NZ_XXX_10_HNZ'', LogMissing ''NZ_XXX_10_HNZ''], armed_streams, ?m2, None)"
    unfolding n1 .
  from h1 h2 a' h3 b h4 h5 c d show ?thesis
    by blast
qed

section \<open>Errors of one block\<close>

lemma process_block_sample_error:
  "missing (SrcName msr) = None \<Longrightarrow> state (SrcName msr) = Some stream \<Longrightarrow>
   DataSamples msr = Inl err \<Longrightarrow>
   process_block W F now msr state missing =
     ([Lookup (SrcName msr), LogSampleProblem err], state, missing, None)"
  by (simp add: process_block_def Let_def)

lemma process_block_process_error:
  "missing (SrcName msr) = None \<Longrightarrow> state (SrcName msr) = Some stream \<Longrightarrow>
   DataSamples msr = Inr samples \<Longrightarrow>
   ProcessSamples W now stream (channel_label msr) (SrcName msr) (Starttime msr) samples
     = (Inl err, stream1) \<Longrightarrow>
   process_block W F now msr state missing =
     ([Lookup (SrcName msr), ProcessCall (channel_label msr) (SrcName msr) (Starttime msr),
       LogProcessProblem err],
      state(SrcName msr \<mapsto> stream1), missing, None)"
  by (simp add: process_block_def Let_def)

lemma read_loop_continue:
  "process_block W F now msr state missing = (evs, state1, missing1, None) \<Longrightarrow>
   read_loop W F Q (Block now msr # rs) state missing =
     (evs @ fst (read_loop W F Q rs state1 missing1), snd (read_loop W F Q rs state1 missing1))"
  by (simp split: prod.splits)

text \<open>
  C3. A configured block for which \<^verbatim>\<open>DataSamples\<close> fails writes the log entry and
  nothing else: streams and \<^verbatim>\<open>missing\<close> are as before, \<^verbatim>\<open>ProcessSamples\<close> and \<^verbatim>\<open>Flush\<close> are
  not called, no message is sent, and the loop goes on with the next read. A block for
  which \<^verbatim>\<open>ProcessSamples\<close> fails writes the log entry, does not call \<^verbatim>\<open>Flush\<close>, sends no
  message, and the loop goes on; \<^verbatim>\<open>main\<close> neither resets nor restores the stream, so the
  channel holds what \<^verbatim>\<open>ProcessSamples\<close> left, and the streams are unchanged when the
  failing call left the stream as it was.
\<close>

theorem block_error_skipped:
  assumes "missing (SrcName msr) = None"
      and "state (SrcName msr) = Some stream"
  shows "(DataSamples msr = Inl err \<longrightarrow>
            process_block W F now msr state missing =
              ([Lookup (SrcName msr), LogSampleProblem err], state, missing, None)
            \<and> read_loop W F Q (Block now msr # rs) state missing =
                ([Lookup (SrcName msr), LogSampleProblem err] @ fst (read_loop W F Q rs state missing),
                 snd (read_loop W F Q rs state missing)))
       \<and> (DataSamples msr = Inr samples \<longrightarrow>
          ProcessSamples W now stream (channel_label msr) (SrcName msr) (Starttime msr) samples
            = (Inl err, stream1) \<longrightarrow>
            process_block W F now msr state missing =
              ([Lookup (SrcName msr), ProcessCall (channel_label msr) (SrcName msr) (Starttime msr),
                LogProcessProblem err],
               state(SrcName msr \<mapsto> stream1), missing, None)
            \<and> read_loop W F Q (Block now msr # rs) state missing =
                ([Lookup (SrcName msr), ProcessCall (channel_label msr) (SrcName msr) (Starttime msr),
                  LogProcessProblem err]
                 @ fst (read_loop W F Q rs (state(SrcName msr \<mapsto> stream1)) missing),
                 snd (read_loop W F Q rs (state(SrcName msr \<mapsto> stream1)) missing))
            \<and> (stream1 = stream \<longrightarrow> state(SrcName msr \<mapsto> stream1) = state))"
proof (intro conjI impI)
  assume e: "DataSamples msr = Inl err"
  show pb: "process_block W F now msr state missing =
              ([Lookup (SrcName msr), LogSampleProblem err], state, missing, None)"
    using assms e by (rule process_block_sample_error)
  show "read_loop W F Q (Block now msr # rs) state missing =
          ([Lookup (SrcName msr), LogSampleProblem err] @ fst (read_loop W F Q rs state missing),
           snd (read_loop W F Q rs state missing))"
    by (rule read_loop_continue [OF pb])
next
  assume s: "DataSamples msr = Inr samples"
    and p: "ProcessSamples W now stream (channel_label msr) (SrcName msr) (Starttime msr) samples
              = (Inl err, stream1)"
  show pb: "process_block W F now msr state missing =
              ([Lookup (SrcName msr), ProcessCall (channel_label msr) (SrcName msr) (Starttime msr),
                LogProcessProblem err],
               state(SrcName msr \<mapsto> stream1), missing, None)"
    using assms s p by (rule process_block_process_error)
  show "read_loop W F Q (Block now msr # rs) state missing =
          ([Lookup (SrcName msr), ProcessCall (channel_label msr) (SrcName msr) (Starttime msr),
            LogProcessProblem err]
           @ fst (read_loop W F Q rs (state(SrcName msr \<mapsto> stream1)) missing),
           snd (read_loop W F Q rs (state(SrcName msr \<mapsto> stream1)) missing))"
    by (rule read_loop_continue [OF pb])
  show "state(SrcName msr \<mapsto> stream1) = state" if "stream1 = stream"
    using that assms(2) by (simp add: map_upd_triv)
qed


theorem block_error_skipped_witness:
  "[''NZ_XXX_10_HNZ'' \<mapsto> ''NZ_XXX_10_HNZ'']
      (SrcName (sample_block ''WEL'' ''NZ_WEL_10_HNZ'' (1902 * Second) [])) = None
   \<and> armed_streams (SrcName (sample_block ''WEL'' ''NZ_WEL_10_HNZ'' (1902 * Second) []))
        = Some \<lparr>armedAt = 1600 * Second, lastLevel = Some 0\<rparr>
   \<and> DataSamples ((sample_block ''WEL'' ''NZ_WEL_10_HNZ'' (1902 * Second) [])
        \<lparr>DataSamples := Inl ''no data''\<rparr>) = Inl ''no data''
   \<and> process_block sample_world sample_flags (2002 * Second + 7)
        ((sample_block ''WEL'' ''NZ_WEL_10_HNZ'' (1902 * Second) [])\<lparr>DataSamples := Inl ''no data''\<rparr>)
        armed_streams [''NZ_XXX_10_HNZ'' \<mapsto> ''NZ_XXX_10_HNZ'']
       = ([Lookup ''NZ_WEL_10_HNZ'', LogSampleProblem ''no data''], armed_streams,
          [''NZ_XXX_10_HNZ'' \<mapsto> ''NZ_XXX_10_HNZ''], None)
   \<and> DataSamples (sample_block ''WEL'' ''NZ_WEL_10_HNZ'' (1902 * Second) []) = Inr []
   \<and> ProcessSamples sample_world (2002 * Second + 7) \<lparr>armedAt = 1600 * Second, lastLevel = Some 0\<rparr>
        (channel_label (sample_block ''WEL'' ''NZ_WEL_10_HNZ'' (1902 * Second) []))
        (SrcName (sample_block ''WEL'' ''NZ_WEL_10_HNZ'' (1902 * Second) []))
        (Starttime (sample_block ''WEL'' ''NZ_WEL_10_HNZ'' (1902 * Second) [])) []
        = (Inl ''no samples'', \<lparr>armedAt = 1600 * Second, lastLevel = Some 0\<rparr>)
   \<and> process_block sample_world sample_flags (2002 * Second + 7)
        (sample_block ''WEL'' ''NZ_WEL_10_HNZ'' (1902 * Second) [])
        armed_streams [''NZ_XXX_10_HNZ'' \<mapsto> ''NZ_XXX_10_HNZ'']
       = ([Lookup ''NZ_WEL_10_HNZ'', ProcessCall ''NZ.WEL'' ''NZ_WEL_10_HNZ'' (1902 * Second),
           LogProcessProblem ''no samples''], armed_streams,
          [''NZ_XXX_10_HNZ'' \<mapsto> ''NZ_XXX_10_HNZ''], None)"
proof -
  let ?b = "sample_block ''WEL'' ''NZ_WEL_10_HNZ'' (1902 * Second) []"
  let ?bad = "?b\<lparr>DataSamples := Inl ''no data''\<rparr>"
  let ?ch = "\<lparr>armedAt = 1600 * Second, lastLevel = Some 0\<rparr>"
  let ?missing = "[''NZ_XXX_10_HNZ'' \<mapsto> ''NZ_XXX_10_HNZ'']"
  have n: "SrcName ?b = ''NZ_WEL_10_HNZ''" "SrcName ?bad = ''NZ_WEL_10_HNZ''"
    "Starttime ?b = 1902 * Second" "channel_label ?b = ''NZ.WEL''"
    by (simp_all add: sample_block_def Replace_def replace_def NewReplacer_def TrimRight_def trimRightByte.simps NUL_def)
  have h1: "?missing (SrcName ?b) = None" "?missing (SrcName ?bad) = None"
    by (simp_all add: sample_block_def)
  have h2: "armed_streams (SrcName ?b) = Some ?ch" "armed_streams (SrcName ?bad) = Some ?ch"
    by (simp_all add: armed_streams_def sample_block_def)
  have h3: "DataSamples ?bad = Inl ''no data''"
    by simp
  have h4: "DataSamples ?b = Inr []"
    by (simp add: sample_block_def)
  have h5: "ProcessSamples sample_world (2002 * Second + 7) ?ch (channel_label ?b) (SrcName ?b)
              (Starttime ?b) [] = (Inl ''no samples'', ?ch)"
    by (simp add: sample_world_def)
  from block_error_skipped [where missing = ?missing and state = armed_streams and msr = ?bad
      and W = sample_world and F = sample_flags and now = "2002 * Second + 7"
      and err = "''no data''", OF h1(2) h2(2)] h3
  have a: "process_block sample_world sample_flags (2002 * Second + 7) ?bad armed_streams ?missing
             = ([Lookup (SrcName ?bad), LogSampleProblem ''no data''], armed_streams, ?missing, None)"
    by blast
  from block_error_skipped [where missing = ?missing and state = armed_streams and msr = ?b
      and W = sample_world and F = sample_flags and now = "2002 * Second + 7"
      and err = "''no samples''" and samples = "[]" and ?stream1.0 = ?ch, OF h1(1) h2(1)] h4 h5
  have b: "process_block sample_world sample_flags (2002 * Second + 7) ?b armed_streams ?missing
             = ([Lookup (SrcName ?b), ProcessCall (channel_label ?b) (SrcName ?b) (Starttime ?b),
                 LogProcessProblem ''no samples''],
                armed_streams(SrcName ?b \<mapsto> ?ch), ?missing, None)"
    and c: "armed_streams(SrcName ?b \<mapsto> ?ch) = armed_streams"
    by blast+
  from h1(1) h2(1) h3 a h4 h5 b c show ?thesis
    unfolding n by simp
qed

section \<open>Where an emitted message comes from\<close>

lemma process_block_not_Emit:
  "process_block W F now msr state missing = (evs, state1, missing1, out) \<Longrightarrow> Emit m \<notin> set evs"
  by (auto simp: process_block_def Let_def split: option.splits sum.splits prod.splits if_splits)

lemma process_block_Some:
  assumes "process_block W F now msr state missing = (evs, state1, missing1, Some m)"
  shows "\<exists>stream samples message stream1.
           missing (SrcName msr) = None \<and> state (SrcName msr) = Some stream
         \<and> DataSamples msr = Inr samples
         \<and> ProcessSamples W now stream (channel_label msr) (SrcName msr) (Starttime msr) samples
             = (Inr message, stream1)
         \<and> fst (Flush W now stream1 0 (MMI message))
         \<and> m = (if replay F then message\<lparr>Time := Truncate now Second\<rparr> else message)"
  using assms
  by (auto simp: process_block_def Let_def split: option.splits sum.splits prod.splits if_splits)

lemma read_loop_Emit_origin:
  "read_loop W F Q rs state missing = (evs, state1, missing1, x) \<Longrightarrow> Emit m \<in> set evs \<Longrightarrow>
   \<exists>now msr stream samples message stream1.
      Block now msr \<in> set rs \<and> DataSamples msr = Inr samples
    \<and> ProcessSamples W now stream (channel_label msr) (SrcName msr) (Starttime msr) samples
        = (Inr message, stream1)
    \<and> fst (Flush W now stream1 0 (MMI message))
    \<and> m = (if replay F then message\<lparr>Time := Truncate now Second\<rparr> else message)"
proof (induction rs arbitrary: state missing evs state1 missing1 x)
  case Nil
  then show ?case by simp
next
  case (Cons r rs)
  show ?case
  proof (cases r)
    case (ReadError e)
    with Cons.prems show ?thesis by simp
  next
    case (Block now msr)
    obtain bevs s1 m1 out where pb: "process_block W F now msr state missing = (bevs, s1, m1, out)"
      by (cases "process_block W F now msr state missing")
    have nb: "Emit m \<notin> set bevs"
      by (rule process_block_not_Emit [OF pb])
    obtain evs2 s2 m2 x2 where rl: "read_loop W F Q rs s1 m1 = (evs2, s2, m2, x2)"
      by (cases "read_loop W F Q rs s1 m1")
    note ih = Cons.IH [OF rl]
    have here: ?thesis if "out = Some m"
    proof -
      from process_block_Some [OF pb [unfolded that]] Block show ?thesis
        by fastforce
    qed
    have later: ?thesis if "Emit m \<in> set evs2"
    proof -
      from ih [OF that] obtain now' msr' stream samples message stream1 where
        "Block now' msr' \<in> set rs" "DataSamples msr' = Inr samples"
        "ProcessSamples W now' stream (channel_label msr') (SrcName msr') (Starttime msr') samples
           = (Inr message, stream1)"
        "fst (Flush W now' stream1 0 (MMI message))"
        "m = (if replay F then message\<lparr>Time := Truncate now' Second\<rparr> else message)"
        by blast
      then show ?thesis
        unfolding Block by (intro exI [of _ now'] exI [of _ msr']) auto
    qed
    show ?thesis
    proof (cases out)
      case None
      with Cons.prems Block pb rl nb have "Emit m \<in> set evs2" by auto
      then show ?thesis by (rule later)
    next
      case (Some m0)
      obtain devs dx where dl: "deliver W F Q now m0 = (devs, dx)"
        by (cases "deliver W F Q now m0")
      have nd: "Emit m \<notin> set devs"
        by (rule deliver_not_Emit [OF dl])
      from Cons.prems Block pb rl nb Some dl nd have "m = m0 \<or> Emit m \<in> set evs2"
        by (cases dx) auto
      with Some here later show ?thesis by blast
    qed
  qed
qed

lemma file_loop_Emit_origin:
  "file_loop W F Q fs state missing = (evs, state1, missing1, x) \<Longrightarrow> Emit m \<in> set evs \<Longrightarrow>
   \<exists>f rs now msr stream samples message stream1.
      f \<in> set fs \<and> Open W f = Inr rs
    \<and> Block now msr \<in> set rs \<and> DataSamples msr = Inr samples
    \<and> ProcessSamples W now stream (channel_label msr) (SrcName msr) (Starttime msr) samples
        = (Inr message, stream1)
    \<and> fst (Flush W now stream1 0 (MMI message))
    \<and> m = (if replay F then message\<lparr>Time := Truncate now Second\<rparr> else message)"
proof (induction fs arbitrary: state missing evs state1 missing1 x)
  case Nil
  then show ?case by simp
next
  case (Cons f fs)
  show ?case
  proof (cases "Open W f")
    case (Inl err)
    with Cons.prems show ?thesis by (auto simp: Let_def split: if_splits)
  next
    case (Inr rs)
    obtain evs1 s1 m1 x1 where rl: "read_loop W F Q rs state missing = (evs1, s1, m1, x1)"
      by (cases "read_loop W F Q rs state missing")
    obtain evs2 s2 m2 x2 where fl: "file_loop W F Q fs s1 m1 = (evs2, s2, m2, x2)"
      by (cases "file_loop W F Q fs s1 m1")
    from Cons.prems Inr rl fl have "Emit m \<in> set evs1 \<or> Emit m \<in> set evs2"
      by (cases x1) (auto simp: Let_def split: if_splits)
    then show ?thesis
    proof
      assume "Emit m \<in> set evs1"
      from read_loop_Emit_origin [OF rl this] Inr show ?thesis
        by (intro exI [of _ f] exI [of _ rs]) auto
    next
      assume "Emit m \<in> set evs2"
      from Cons.IH [OF fl this] obtain f' rs' now msr stream samples message stream1 where
        "f' \<in> set fs" "Open W f' = Inr rs'" "Block now msr \<in> set rs'" "DataSamples msr = Inr samples"
        "ProcessSamples W now stream (channel_label msr) (SrcName msr) (Starttime msr) samples
           = (Inr message, stream1)"
        "fst (Flush W now stream1 0 (MMI message))"
        "m = (if replay F then message\<lparr>Time := Truncate now Second\<rparr> else message)"
        by blast
      then show ?thesis
        by (intro exI [of _ f'] exI [of _ rs'] exI [of _ now] exI [of _ msr]) auto
    qed
  qed
qed

lemma main_Emit_origin:
  assumes "Emit m \<in> set (fst (main W F))"
  shows "\<exists>f rs now msr stream samples message stream1.
      f \<in> set (args F) \<and> Open W f = Inr rs
    \<and> Block now msr \<in> set rs \<and> DataSamples msr = Inr samples
    \<and> ProcessSamples W now stream (channel_label msr) (SrcName msr) (Starttime msr) samples
        = (Inr message, stream1)
    \<and> fst (Flush W now stream1 0 (MMI message))
    \<and> m = (if replay F then message\<lparr>Time := Truncate now Second\<rparr> else message)"
proof (cases rule: main_cases [of W F])
  case no_region
  with assms show ?thesis by simp
next
  case no_queue
  with assms show ?thesis by simp
next
  case (no_connect evs0 err)
  with assms connect_events [OF no_connect(1), of "Emit m"] show ?thesis by auto
next
  case (no_config evs0 Q err)
  with assms connect_events [OF no_config(1), of "Emit m"] show ?thesis by auto
next
  case (no_init evs0 Q state evs1 x)
  with assms connect_events [OF no_init(1), of "Emit m"] init_streams_events [OF no_init(3), of "Emit m"]
  show ?thesis by auto
next
  case (run evs0 Q state evs1 state1 evs2 state2 missing2 x)
  with assms connect_events [OF run(1), of "Emit m"] init_streams_events [OF run(3), of "Emit m"]
  have "Emit m \<in> set evs2" by auto
  from file_loop_Emit_origin [OF run(4) this] show ?thesis .
qed

lemma Truncate_Second:
  "Truncate t Second mod Second = 0 \<and> Truncate t Second \<le> t \<and> t < Truncate t Second + Second"
proof -
  have p: "0 < Second" by (simp add: Second_def)
  have "(t - t mod Second) mod Second = 0"
    by (simp add: minus_mod_eq_mult_div)
  moreover have "0 \<le> t mod Second" "t mod Second < Second"
    using p by simp_all
  ultimately show ?thesis
    using p by (simp add: Truncate_def)
qed


lemma process_block_replay:
  "fst (process_block W (F\<lparr>replay := b\<rparr>) now msr state missing)
     = fst (process_block W F now msr state missing)
   \<and> fst (snd (process_block W (F\<lparr>replay := b\<rparr>) now msr state missing))
     = fst (snd (process_block W F now msr state missing))
   \<and> fst (snd (snd (process_block W (F\<lparr>replay := b\<rparr>) now msr state missing)))
     = fst (snd (snd (process_block W F now msr state missing)))
   \<and> map_option MMI (snd (snd (snd (process_block W (F\<lparr>replay := b\<rparr>) now msr state missing))))
     = map_option MMI (snd (snd (snd (process_block W F now msr state missing))))"
  by (simp add: process_block_def Let_def split: option.splits sum.splits prod.splits)

text \<open>
  C6. Every message a run of \<^verbatim>\<open>main\<close> puts on \<^verbatim>\<open>result\<close> comes from a block of one of the
  files: it is the message \<^verbatim>\<open>ProcessSamples\<close> returned for that block's label, key, start
  time and samples, with the same level. Without \<^verbatim>\<open>-replay\<close> its time is the time
  \<^verbatim>\<open>ProcessSamples\<close> gave it, which is the block's start time when \<^verbatim>\<open>ProcessSamples\<close>
  stamps the start time it is given. With \<^verbatim>\<open>-replay\<close> its time is the wall clock rounded
  down to a whole second. The flag changes neither the events of a block, nor the
  streams, nor the level of the message.
\<close>

theorem emitted_timestamp:
  "(Emit m \<in> set (fst (main W F)) \<longrightarrow>
      (\<exists>f rs now msr stream samples message stream1.
          f \<in> set (args F) \<and> Open W f = Inr rs \<and> Block now msr \<in> set rs
        \<and> DataSamples msr = Inr samples
        \<and> ProcessSamples W now stream (channel_label msr) (SrcName msr) (Starttime msr) samples
            = (Inr message, stream1)
        \<and> MMI m = MMI message
        \<and> (\<not> replay F \<longrightarrow>
             Time m = Time message \<and> (Time message = Starttime msr \<longrightarrow> Time m = Starttime msr))
        \<and> (replay F \<longrightarrow>
             Time m = Truncate now Second \<and> Time m mod Second = 0 \<and> Time m \<le> now
             \<and> now < Time m + Second)))
   \<and> fst (process_block W (F\<lparr>replay := b\<rparr>) now' msr' state missing)
       = fst (process_block W F now' msr' state missing)
   \<and> fst (snd (process_block W (F\<lparr>replay := b\<rparr>) now' msr' state missing))
       = fst (snd (process_block W F now' msr' state missing))
   \<and> map_option MMI (snd (snd (snd (process_block W (F\<lparr>replay := b\<rparr>) now' msr' state missing))))
       = map_option MMI (snd (snd (snd (process_block W F now' msr' state missing))))"
proof -
  have "\<exists>f rs now msr stream samples message stream1.
          f \<in> set (args F) \<and> Open W f = Inr rs \<and> Block now msr \<in> set rs
        \<and> DataSamples msr = Inr samples
        \<and> ProcessSamples W now stream (channel_label msr) (SrcName msr) (Starttime msr) samples
            = (Inr message, stream1)
        \<and> MMI m = MMI message
        \<and> (\<not> replay F \<longrightarrow>
             Time m = Time message \<and> (Time message = Starttime msr \<longrightarrow> Time m = Starttime msr))
        \<and> (replay F \<longrightarrow>
             Time m = Truncate now Second \<and> Time m mod Second = 0 \<and> Time m \<le> now
             \<and> now < Time m + Second)"
    if "Emit m \<in> set (fst (main W F))"
  proof -
    from main_Emit_origin [OF that] obtain f rs now msr stream samples message stream1 where
      o: "f \<in> set (args F)" "Open W f = Inr rs" "Block now msr \<in> set rs" "DataSamples msr = Inr samples"
        "ProcessSamples W now stream (channel_label msr) (SrcName msr) (Starttime msr) samples
           = (Inr message, stream1)"
      and m: "m = (if replay F then message\<lparr>Time := Truncate now Second\<rparr> else message)"
      by blast
    have "MMI m = MMI message"
      using m by simp
    moreover have "\<not> replay F \<longrightarrow>
        Time m = Time message \<and> (Time message = Starttime msr \<longrightarrow> Time m = Starttime msr)"
      using m by simp
    moreover have "replay F \<longrightarrow>
        Time m = Truncate now Second \<and> Time m mod Second = 0 \<and> Time m \<le> now \<and> now < Time m + Second"
      using m Truncate_Second [of now] by simp
    ultimately show ?thesis
      using o
      apply (rule_tac x = f in exI)
      apply (rule_tac x = rs in exI)
      apply (rule_tac x = now in exI)
      apply (rule_tac x = msr in exI)
      apply (rule_tac x = stream in exI)
      apply (rule_tac x = samples in exI)
      apply (rule_tac x = message in exI)
      apply (rule_tac x = stream1 in exI)
      apply blast
      done
  qed
  with process_block_replay [where W = W and F = F and b = b and now = now' and msr = msr' and state = state and missing = missing] show ?thesis
    by blast
qed

lemma sample_replay_run:
  "fst (main sample_world (sample_flags\<lparr>replay := True, verbose := False\<rparr>)) =
    [GetAuthCall [] [] 2800000000000,
     GetQueueCall ''ap-southeast-2'' ''impact'',
     LoadStreamsCall ''impact.json'',
     InitCall ''NZ_KHZ_10_HNZ'' 600000000000 2,
     InitCall ''NZ_WEL_10_HNZ'' 600000000000 2,
     OpenCall ''a.mseed'',
     Lookup ''NZ_WEL_10_HNZ'',
     ProcessCall ''NZ.WEL'' ''NZ_WEL_10_HNZ'' 1900000000000,
     FlushCall ''NZ_WEL_10_HNZ'' 0 0,
     Emit \<lparr>Time = 2000000000000, MMI = 0, Label = ''NZ.WEL'', Key = ''NZ_WEL_10_HNZ''\<rparr>,
     Send ''NZ.WEL NZ_WEL_10_HNZ'',
     Lookup ''NZ_XXX_10_HNZ'',
     LogMissing ''NZ_XXX_10_HNZ'',
     Lookup ''NZ_WEL_10_HNZ'',
     ProcessCall ''NZ.WEL'' ''NZ_WEL_10_HNZ'' 1902000000000,
     FlushCall ''NZ_WEL_10_HNZ'' 0 0,
     Lookup ''NZ_WEL_10_HNZ'',
     ProcessCall ''NZ.WEL'' ''NZ_WEL_10_HNZ'' 1904000000000,
     FlushCall ''NZ_WEL_10_HNZ'' 0 2,
     Emit \<lparr>Time = 2004000000000, MMI = 2, Label = ''NZ.WEL'', Key = ''NZ_WEL_10_HNZ''\<rparr>,
     Send ''NZ.WEL NZ_WEL_10_HNZ'']"
  by (simp add: main_def sample_world_def sample_flags_def Let_def connect_def sample_streams_def
      sample_reads_def sample_block_def process_block_def deliver_def sample_level_def
      TrimRight_def trimRightByte.simps NUL_def Replace_def replace_def NewReplacer_def Second_def Minute_def
      Truncate_def)

theorem emitted_timestamp_witness:
  "Emit \<lparr>Time = 2004000000000, MMI = 2, Label = ''NZ.WEL'', Key = ''NZ_WEL_10_HNZ''\<rparr>
     \<in> set (fst (main sample_world (sample_flags\<lparr>replay := True, verbose := False\<rparr>)))
   \<and> replay (sample_flags\<lparr>replay := True, verbose := False\<rparr>)
   \<and> (\<exists>now msr stream samples message stream1.
          Block now msr \<in> set sample_reads
        \<and> ProcessSamples sample_world now stream (channel_label msr) (SrcName msr) (Starttime msr) samples
            = (Inr message, stream1)
        \<and> MMI message = 2
        \<and> Truncate now Second = 2004000000000
        \<and> 2004000000000 \<le> now \<and> now < 2004000000000 + Second)
   \<and> Emit \<lparr>Time = 1904000000000, MMI = 2, Label = ''NZ.WEL'', Key = ''NZ_WEL_10_HNZ''\<rparr>
     \<in> set (fst (main sample_world sample_flags))
   \<and> \<not> replay sample_flags
   \<and> (\<exists>now msr stream samples message stream1.
          Block now msr \<in> set sample_reads
        \<and> ProcessSamples sample_world now stream (channel_label msr) (SrcName msr) (Starttime msr) samples
            = (Inr message, stream1)
        \<and> MMI message = 2
        \<and> Time message = Starttime msr
        \<and> Starttime msr = 1904000000000)"
proof -
  let ?m = "\<lparr>Time = 2004000000000, MMI = 2 :: int, Label = ''NZ.WEL'', Key = ''NZ_WEL_10_HNZ''\<rparr>"
  let ?F = "sample_flags\<lparr>replay := True, verbose := False\<rparr>"
  let ?n = "\<lparr>Time = 1904000000000, MMI = 2 :: int, Label = ''NZ.WEL'', Key = ''NZ_WEL_10_HNZ''\<rparr>"
  have h: "Emit ?m \<in> set (fst (main sample_world ?F))"
    by (simp add: sample_replay_run)
  have r: "replay ?F"
    by simp
  have h': "Emit ?n \<in> set (fst (main sample_world sample_flags))"
    by (simp add: sample_run)
  have r': "\<not> replay sample_flags"
    by (simp add: sample_flags_def)
  have o: "Open sample_world f = Inr rs \<Longrightarrow> rs = sample_reads" for f rs
    by (auto simp: sample_world_def split: if_splits)
  have p: "ProcessSamples sample_world now stream lbl k t samples = (Inr message, stream1)
             \<Longrightarrow> Time message = t" for now stream lbl k t samples message stream1
    by (auto simp: sample_world_def split: if_splits)
  note e = conjunct1 [OF emitted_timestamp [where m = ?m and W = sample_world and F = ?F], THEN mp, OF h]
  from e obtain f rs now msr stream samples message stream1 where
    "Open sample_world f = Inr rs" "Block now msr \<in> set rs"
    "ProcessSamples sample_world now stream (channel_label msr) (SrcName msr) (Starttime msr) samples
       = (Inr message, stream1)"
    "MMI ?m = MMI message"
    "replay ?F \<longrightarrow> Time ?m = Truncate now Second \<and> Time ?m mod Second = 0 \<and> Time ?m \<le> now
       \<and> now < Time ?m + Second"
    by (elim exE conjE)
  with r have
    "Open sample_world f = Inr rs" "Block now msr \<in> set rs"
    "ProcessSamples sample_world now stream (channel_label msr) (SrcName msr) (Starttime msr) samples
       = (Inr message, stream1)"
    "MMI ?m = MMI message" "Time ?m = Truncate now Second" "Time ?m \<le> now" "now < Time ?m + Second"
    by simp_all
  with o [of f rs] have "Block now msr \<in> set sample_reads
        \<and> ProcessSamples sample_world now stream (channel_label msr) (SrcName msr) (Starttime msr) samples
            = (Inr message, stream1)
        \<and> MMI message = 2
        \<and> Truncate now Second = 2004000000000
        \<and> 2004000000000 \<le> now \<and> now < 2004000000000 + Second"
    by simp
  then have on: "\<exists>now msr stream samples message stream1.
          Block now msr \<in> set sample_reads
        \<and> ProcessSamples sample_world now stream (channel_label msr) (SrcName msr) (Starttime msr) samples
            = (Inr message, stream1)
        \<and> MMI message = 2
        \<and> Truncate now Second = 2004000000000
        \<and> 2004000000000 \<le> now \<and> now < 2004000000000 + Second"
    by blast
  note e' = conjunct1 [OF emitted_timestamp [where m = ?n and W = sample_world and F = sample_flags],
      THEN mp, OF h']
  from e' obtain f rs now msr stream samples message stream1 where
    a: "Open sample_world f = Inr rs" "Block now msr \<in> set rs"
    "ProcessSamples sample_world now stream (channel_label msr) (SrcName msr) (Starttime msr) samples
       = (Inr message, stream1)"
    "MMI ?n = MMI message"
    "\<not> replay sample_flags \<longrightarrow>
       Time ?n = Time message \<and> (Time message = Starttime msr \<longrightarrow> Time ?n = Starttime msr)"
    by (elim exE conjE)
  from p [OF a(3)] have s: "Time message = Starttime msr" .
  with a r' o [of f rs] have "Block now msr \<in> set sample_reads
        \<and> ProcessSamples sample_world now stream (channel_label msr) (SrcName msr) (Starttime msr) samples
            = (Inr message, stream1)
        \<and> MMI message = 2
        \<and> Time message = Starttime msr
        \<and> Starttime msr = 1904000000000"
    by simp
  then have off: "\<exists>now msr stream samples message stream1.
          Block now msr \<in> set sample_reads
        \<and> ProcessSamples sample_world now stream (channel_label msr) (SrcName msr) (Starttime msr) samples
            = (Inr message, stream1)
        \<and> MMI message = 2
        \<and> Time message = Starttime msr
        \<and> Starttime msr = 1904000000000"
    by blast
  from h r on h' r' off show ?thesis
    by blast
qed

section \<open>The channel label\<close>

lemma trimRightByte_dropWhile: "trimRightByte s c = rev (dropWhile (\<lambda>x. x = c) (rev s))"
proof (induction s c rule: trimRightByte.induct)
  case (1 s c)
  show ?case
  proof (cases "s \<noteq> [] \<and> last s = c")
    case True
    then have "butlast s @ [c] = s"
      by (metis append_butlast_last_id)
    then have "rev (butlast s @ [c]) = rev s"
      by (rule arg_cong)
    then have r: "rev s = c # rev (butlast s)"
      by simp
    have "dropWhile (\<lambda>x. x = c) (rev s) = dropWhile (\<lambda>x. x = c) (rev (butlast s))"
      by (subst r) simp
    moreover have "trimRightByte s c = trimRightByte (butlast s) c"
      using True by (subst trimRightByte.simps) simp
    ultimately show ?thesis
      using "1.IH" [OF True] by simp
  next
    case False
    then have "dropWhile (\<lambda>x. x = c) (rev s) = rev s"
      by (cases s rule: rev_cases) auto
    moreover have "trimRightByte s c = s"
      using False by (subst trimRightByte.simps) auto
    ultimately show ?thesis
      by simp
  qed
qed

lemma TrimRight_dropWhile: "TrimRight s c = rev (dropWhile (\<lambda>x. x = c) (rev s))"
  by (simp add: TrimRight_def trimRightByte_dropWhile)

lemma channel_label_normalized: "channel_label msr = normalized_label (Network msr) (Station msr)"
  by (simp add: normalized_label_def TrimRight_dropWhile Replace_def replace_def NewReplacer_def fun_eq_iff)

lemma takeWhile_eq_replicate:
  "takeWhile (\<lambda>x. x = c) xs = replicate (length (takeWhile (\<lambda>x. x = c) xs)) c"
proof -
  have "\<forall>y \<in> set (takeWhile (\<lambda>x. x = c) xs). y = c"
    by (auto dest: set_takeWhileD)
  then show ?thesis
    by (rule replicate_length_same [symmetric])
qed

lemma TrimRight_stripped:
  "(\<exists>n. TrimRight s c @ replicate n c = s) \<and> (TrimRight s c = [] \<or> last (TrimRight s c) \<noteq> c)"
proof
  let ?n = "length (takeWhile (\<lambda>x. x = c) (rev s))"
  have a: "s = rev (dropWhile (\<lambda>x. x = c) (rev s)) @ rev (takeWhile (\<lambda>x. x = c) (rev s))"
    by (metis rev_append rev_rev_ident takeWhile_dropWhile_id)
  have b: "rev (takeWhile (\<lambda>x. x = c) (rev s)) = replicate ?n c"
    by (metis takeWhile_eq_replicate rev_replicate)
  have "TrimRight s c @ replicate ?n c = s"
    unfolding TrimRight_dropWhile b [symmetric] using a by (rule sym)
  then show "\<exists>n. TrimRight s c @ replicate n c = s" ..
next
  show "TrimRight s c = [] \<or> last (TrimRight s c) \<noteq> c"
  proof (cases "dropWhile (\<lambda>x. x = c) (rev s)")
    case Nil
    then show ?thesis by (simp add: TrimRight_dropWhile)
  next
    case (Cons y ys)
    with hd_dropWhile [of "\<lambda>x. x = c" "rev s"] have "y \<noteq> c" by simp
    with Cons show ?thesis by (simp add: TrimRight_dropWhile)
  qed
qed

text \<open>
  C9. Every message a run of \<^verbatim>\<open>main\<close> puts on \<^verbatim>\<open>result\<close> is the message that
  \<^verbatim>\<open>ProcessSamples\<close> built from two strings of its block: the label, which is the network
  and station codes joined by a dot, with the trailing NUL characters stripped and every
  underscore replaced by a dot, and the key, which is \<^verbatim>\<open>SrcName(0)\<close> as the decoder gave
  it. Apart from its time the emitted message is that message, so a field in which
  \<^verbatim>\<open>ProcessSamples\<close> stores the label or the key holds it in the emitted message too.
  The label \<^verbatim>\<open>main\<close> computes (\<^verbatim>\<open>TrimRight\<close>, then \<^verbatim>\<open>Replace\<close>) is the label of the
  specification's words; it has no underscore, is not empty and does not end in NUL, and
  the stripped string followed by NULs is the joined string.
\<close>

theorem emitted_label:
  "(Emit m \<in> set (fst (main W F)) \<longrightarrow>
      (\<exists>f rs now msr stream samples message stream1.
          f \<in> set (args F) \<and> Open W f = Inr rs \<and> Block now msr \<in> set rs
        \<and> DataSamples msr = Inr samples
        \<and> ProcessSamples W now stream (normalized_label (Network msr) (Station msr)) (SrcName msr)
            (Starttime msr) samples = (Inr message, stream1)
        \<and> Message.more m = Message.more message
        \<and> ((\<forall>t. label_of (message\<lparr>Time := t\<rparr>) = label_of message) \<longrightarrow>
            label_of message = normalized_label (Network msr) (Station msr) \<longrightarrow>
            label_of m = normalized_label (Network msr) (Station msr))
        \<and> ((\<forall>t. key_of (message\<lparr>Time := t\<rparr>) = key_of message) \<longrightarrow>
            key_of message = SrcName msr \<longrightarrow> key_of m = SrcName msr)))
   \<and> channel_label msr' = normalized_label (Network msr') (Station msr')
   \<and> CHR ''_'' \<notin> set (channel_label msr')
   \<and> (\<exists>n. TrimRight (Network msr' @ ''.'' @ Station msr') NUL @ replicate n NUL
              = Network msr' @ ''.'' @ Station msr')
   \<and> channel_label msr' \<noteq> []
   \<and> last (channel_label msr') \<noteq> NUL"
proof -
  have a: "\<exists>f rs now msr stream samples message stream1.
          f \<in> set (args F) \<and> Open W f = Inr rs \<and> Block now msr \<in> set rs
        \<and> DataSamples msr = Inr samples
        \<and> ProcessSamples W now stream (normalized_label (Network msr) (Station msr)) (SrcName msr)
            (Starttime msr) samples = (Inr message, stream1)
        \<and> Message.more m = Message.more message
        \<and> ((\<forall>t. label_of (message\<lparr>Time := t\<rparr>) = label_of message) \<longrightarrow>
            label_of message = normalized_label (Network msr) (Station msr) \<longrightarrow>
            label_of m = normalized_label (Network msr) (Station msr))
        \<and> ((\<forall>t. key_of (message\<lparr>Time := t\<rparr>) = key_of message) \<longrightarrow>
            key_of message = SrcName msr \<longrightarrow> key_of m = SrcName msr)"
    if "Emit m \<in> set (fst (main W F))"
  proof -
    from main_Emit_origin [OF that] obtain f rs now msr stream samples message stream1 where
      o: "f \<in> set (args F)" "Open W f = Inr rs" "Block now msr \<in> set rs" "DataSamples msr = Inr samples"
        "ProcessSamples W now stream (channel_label msr) (SrcName msr) (Starttime msr) samples
           = (Inr message, stream1)"
      and m: "m = (if replay F then message\<lparr>Time := Truncate now Second\<rparr> else message)"
      by blast
    have e: "Message.more m = Message.more message"
      using m by simp
    have l: "(\<forall>t. label_of (message\<lparr>Time := t\<rparr>) = label_of message) \<longrightarrow>
            label_of message = normalized_label (Network msr) (Station msr) \<longrightarrow>
            label_of m = normalized_label (Network msr) (Station msr)"
      using m by simp
    have k: "(\<forall>t. key_of (message\<lparr>Time := t\<rparr>) = key_of message) \<longrightarrow>
            key_of message = SrcName msr \<longrightarrow> key_of m = SrcName msr"
      using m by simp
    show ?thesis
      apply (rule_tac x = f in exI)
      apply (rule_tac x = rs in exI)
      apply (rule_tac x = now in exI)
      apply (rule_tac x = msr in exI)
      apply (rule_tac x = stream in exI)
      apply (rule_tac x = samples in exI)
      apply (rule_tac x = message in exI)
      apply (rule_tac x = stream1 in exI)
      using o(1-4) o(5) [unfolded channel_label_normalized] e l k apply blast
      done
  qed
  let ?t = "TrimRight (Network msr' @ ''.'' @ Station msr') NUL"
  have b: "channel_label msr' = normalized_label (Network msr') (Station msr')"
    by (rule channel_label_normalized)
  have c: "CHR ''_'' \<notin> set (channel_label msr')"
    by (auto simp: Replace_def replace_def NewReplacer_def)
  from TrimRight_stripped [of "Network msr' @ ''.'' @ Station msr'" NUL]
  have d: "\<exists>n. ?t @ replicate n NUL = Network msr' @ ''.'' @ Station msr'"
    and l: "?t = [] \<or> last ?t \<noteq> NUL"
    by blast+
  have ne: "?t \<noteq> []"
  proof
    assume "?t = []"
    with d obtain n where "replicate n NUL = Network msr' @ ''.'' @ Station msr'"
      by auto
    then have "CHR ''.'' \<in> set (replicate n NUL)"
      by simp
    then show False
      by (simp add: NUL_def)
  qed
  then have e: "channel_label msr' \<noteq> []"
    by (simp add: Replace_def)
  from ne l have "last ?t \<noteq> NUL"
    by simp
  with ne have g: "last (channel_label msr') \<noteq> NUL"
    by (simp add: Replace_def last_map replace_def NewReplacer_def NUL_def)
  from a have a': "Emit m \<in> set (fst (main W F)) \<longrightarrow>
      (\<exists>f rs now msr stream samples message stream1.
          f \<in> set (args F) \<and> Open W f = Inr rs \<and> Block now msr \<in> set rs
        \<and> DataSamples msr = Inr samples
        \<and> ProcessSamples W now stream (normalized_label (Network msr) (Station msr)) (SrcName msr)
            (Starttime msr) samples = (Inr message, stream1)
        \<and> Message.more m = Message.more message
        \<and> ((\<forall>t. label_of (message\<lparr>Time := t\<rparr>) = label_of message) \<longrightarrow>
            label_of message = normalized_label (Network msr) (Station msr) \<longrightarrow>
            label_of m = normalized_label (Network msr) (Station msr))
        \<and> ((\<forall>t. key_of (message\<lparr>Time := t\<rparr>) = key_of message) \<longrightarrow>
            key_of message = SrcName msr \<longrightarrow> key_of m = SrcName msr))"
    by (rule impI)
  show ?thesis
    apply (rule conjI)
     apply (rule a')
    apply (rule conjI)
     apply (rule b)
    apply (rule conjI)
     apply (rule c)
    apply (rule conjI)
     apply (rule d)
    apply (rule conjI)
     apply (rule e)
    apply (rule g)
    done
qed


theorem emitted_label_witness:
  "Emit \<lparr>Time = 1904000000000, MMI = 2, Label = ''NZ.WEL'', Key = ''NZ_WEL_10_HNZ''\<rparr>
     \<in> set (fst (main sample_world sample_flags))
   \<and> (\<exists>now msr. Block now msr \<in> set sample_reads
        \<and> Label \<lparr>Time = 1904000000000, MMI = 2 :: int, Label = ''NZ.WEL'', Key = ''NZ_WEL_10_HNZ''\<rparr>
            = normalized_label (Network msr) (Station msr)
        \<and> Key \<lparr>Time = 1904000000000, MMI = 2 :: int, Label = ''NZ.WEL'', Key = ''NZ_WEL_10_HNZ''\<rparr>
            = SrcName msr)
   \<and> channel_label \<lparr>Network = ''N_Z'', Station = ''W_L'' @ [NUL, NUL], SrcName = ''N_Z_W_L_10_HNZ'',
        Starttime = 0, DataSamples = Inr [1 :: int]\<rparr> = ''N.Z.W.L''
   \<and> normalized_label ''N_Z'' (''W_L'' @ [NUL, NUL]) = ''N.Z.W.L''"
proof -
  let ?m = "\<lparr>Time = 1904000000000, MMI = 2 :: int, Label = ''NZ.WEL'', Key = ''NZ_WEL_10_HNZ''\<rparr>"
  let ?r = "\<lparr>Network = ''N_Z'', Station = ''W_L'' @ [NUL, NUL], SrcName = ''N_Z_W_L_10_HNZ'',
        Starttime = 0, DataSamples = Inr [1 :: int]\<rparr>"
  have h: "Emit ?m \<in> set (fst (main sample_world sample_flags))"
    by (simp add: sample_run)
  have o: "Open sample_world f = Inr rs \<Longrightarrow> rs = sample_reads" for f rs
    by (auto simp: sample_world_def split: if_splits)
  have p: "ProcessSamples sample_world now stream lbl k t samples = (Inr message, stream1)
             \<Longrightarrow> Label message = lbl \<and> Key message = k" for now stream lbl k t samples message stream1
    by (auto simp: sample_world_def split: if_splits)
  note T = emitted_label [where m = ?m and W = sample_world and F = sample_flags
      and label_of = Label and key_of = Key and msr' = ?r]
  note e = conjunct1 [OF T, THEN mp, OF h]
  from e obtain f rs now msr stream samples message stream1 where
    a: "Open sample_world f = Inr rs" "Block now msr \<in> set rs"
      "ProcessSamples sample_world now stream (normalized_label (Network msr) (Station msr)) (SrcName msr)
         (Starttime msr) samples = (Inr message, stream1)"
      "(\<forall>t. Label (message\<lparr>Time := t\<rparr>) = Label message) \<longrightarrow>
         Label message = normalized_label (Network msr) (Station msr) \<longrightarrow>
         Label ?m = normalized_label (Network msr) (Station msr)"
      "(\<forall>t. Key (message\<lparr>Time := t\<rparr>) = Key message) \<longrightarrow>
         Key message = SrcName msr \<longrightarrow> Key ?m = SrcName msr"
    by (elim exE conjE)
  from p [OF a(3)] a(4,5) have "Label ?m = normalized_label (Network msr) (Station msr)"
    and "Key ?m = SrcName msr"
    by simp_all
  with a(2) o [OF a(1)] have "Block now msr \<in> set sample_reads
      \<and> Label ?m = normalized_label (Network msr) (Station msr) \<and> Key ?m = SrcName msr"
    by simp
  then have ex: "\<exists>now msr. Block now msr \<in> set sample_reads
      \<and> Label ?m = normalized_label (Network msr) (Station msr) \<and> Key ?m = SrcName msr"
    by blast
  have c1: "channel_label ?r = normalized_label (Network ?r) (Station ?r)"
    using T by (elim conjE)
  have c2: "normalized_label ''N_Z'' (''W_L'' @ [NUL, NUL]) = ''N.Z.W.L''"
    by (simp add: normalized_label_def NUL_def)
  from c1 c2 have c3: "channel_label ?r = ''N.Z.W.L''"
    by simp
  from h ex c3 c2 show ?thesis
    by blast
qed

section \<open>Initialising the streams\<close>

lemma process_block_loop_events:
  "process_block W F now msr state missing = (evs, state1, missing1, out) \<Longrightarrow> e \<in> set evs \<Longrightarrow> loop_event e"
  by (auto simp: process_block_def Let_def split: option.splits sum.splits prod.splits if_splits)

lemma deliver_loop_events:
  "deliver W F Q now m = (devs, x) \<Longrightarrow> e \<in> set devs \<Longrightarrow> loop_event e"
  by (auto simp: deliver_def Let_def split: sum.splits option.splits if_splits)

lemma read_loop_loop_events:
  "read_loop W F Q rs state missing = (evs, state1, missing1, x) \<Longrightarrow> e \<in> set evs \<Longrightarrow> loop_event e"
proof (induction rs arbitrary: state missing evs state1 missing1 x)
  case Nil
  then show ?case by simp
next
  case (Cons r rs)
  show ?case
  proof (cases r)
    case (ReadError err)
    with Cons.prems show ?thesis by simp
  next
    case (Block now msr)
    obtain bevs s1 m1 out where pb: "process_block W F now msr state missing = (bevs, s1, m1, out)"
      by (cases "process_block W F now msr state missing")
    obtain evs2 s2 m2 x2 where rl: "read_loop W F Q rs s1 m1 = (evs2, s2, m2, x2)"
      by (cases "read_loop W F Q rs s1 m1")
    note b = process_block_loop_events [OF pb, of e]
    note r = Cons.IH [OF rl]
    show ?thesis
    proof (cases out)
      case None
      with Cons.prems Block pb rl b r show ?thesis by auto
    next
      case (Some m)
      obtain devs dx where dl: "deliver W F Q now m = (devs, dx)"
        by (cases "deliver W F Q now m")
      note d = deliver_loop_events [OF dl, of e]
      from Cons.prems Block pb rl b r Some dl d show ?thesis
        by (cases dx) auto
    qed
  qed
qed

lemma file_loop_loop_events:
  "file_loop W F Q fs state missing = (evs, state1, missing1, x) \<Longrightarrow> e \<in> set evs \<Longrightarrow> loop_event e"
proof (induction fs arbitrary: state missing evs state1 missing1 x)
  case Nil
  then show ?case by simp
next
  case (Cons f fs)
  show ?case
  proof (cases "Open W f")
    case (Inl err)
    with Cons.prems show ?thesis by (auto simp: Let_def split: if_splits)
  next
    case (Inr rs)
    obtain evs1 s1 m1 x1 where rl: "read_loop W F Q rs state missing = (evs1, s1, m1, x1)"
      by (cases "read_loop W F Q rs state missing")
    obtain evs2 s2 m2 x2 where fl: "file_loop W F Q fs s1 m1 = (evs2, s2, m2, x2)"
      by (cases "file_loop W F Q fs s1 m1")
    note a = read_loop_loop_events [OF rl, of e]
    note b = Cons.IH [OF fl]
    from Cons.prems Inr rl fl a b show ?thesis
      by (cases x1) (auto simp: Let_def split: if_splits)
  qed
qed

lemma init_streams_Inr:
  assumes "init_streams W p l ks state = (evs, Inr state1)" and "distinct ks"
  shows "evs = map (\<lambda>s. InitCall s p (ucast l)) ks
       \<and> (\<forall>k. k \<notin> set ks \<longrightarrow> state1 k = state k)
       \<and> (\<forall>k \<in> set ks. \<exists>stream stream1. state k = Some stream
            \<and> Init W (Now W) stream k p (ucast l) = Inr stream1 \<and> state1 k = Some stream1)"
  using assms
proof (induction ks arbitrary: state evs)
  case Nil
  then show ?case by simp
next
  case (Cons s ks)
  from Cons.prems(1) obtain stream where st: "state s = Some stream"
    by (cases "state s") auto
  from Cons.prems(1) st obtain stream1 where i: "Init W (Now W) stream s p (ucast l) = Inr stream1"
    by (cases "Init W (Now W) stream s p (ucast l)") auto
  from Cons.prems(1) st i obtain evs' where
    r: "init_streams W p l ks (state(s \<mapsto> stream1)) = (evs', Inr state1)"
    and e: "evs = InitCall s p (ucast l) # evs'"
    by (auto split: prod.splits)
  from Cons.prems(2) have d: "distinct ks" and n: "s \<notin> set ks"
    by simp_all
  from Cons.IH [OF r d] have
    ih1: "evs' = map (\<lambda>s. InitCall s p (ucast l)) ks"
    and ih2: "\<forall>k. k \<notin> set ks \<longrightarrow> state1 k = (state(s \<mapsto> stream1)) k"
    and ih3: "\<forall>k \<in> set ks. \<exists>stream' stream1'. (state(s \<mapsto> stream1)) k = Some stream'
            \<and> Init W (Now W) stream' k p (ucast l) = Inr stream1' \<and> state1 k = Some stream1'"
    by blast+
  have a: "evs = map (\<lambda>s. InitCall s p (ucast l)) (s # ks)"
    using e ih1 by simp
  have b: "\<forall>k. k \<notin> set (s # ks) \<longrightarrow> state1 k = state k"
    using ih2 by simp
  have c: "\<exists>stream stream1. state k = Some stream
            \<and> Init W (Now W) stream k p (ucast l) = Inr stream1 \<and> state1 k = Some stream1"
    if "k \<in> set (s # ks)" for k
  proof (cases "k = s")
    case True
    with n ih2 have "state1 k = Some stream1" by simp
    with True st i show ?thesis by simp
  next
    case False
    with that have "k \<in> set ks" by simp
    with ih3 False show ?thesis by auto
  qed
  from a b c show ?case by blast
qed

lemma init_streams_Inl:
  assumes "init_streams W p l ks state = (evs, Inl x)" and "distinct ks" and "set ks \<subseteq> dom state"
  shows "\<exists>pre k post stream err. ks = pre @ k # post \<and> state k = Some stream
       \<and> Init W (Now W) stream k p (ucast l) = Inl err \<and> x = Fatal err
       \<and> evs = map (\<lambda>s. InitCall s p (ucast l)) (pre @ [k])"
  using assms
proof (induction ks arbitrary: state evs)
  case Nil
  then show ?case by simp
next
  case (Cons s ks)
  from Cons.prems(3) obtain stream where st: "state s = Some stream"
    by auto
  show ?case
  proof (cases "Init W (Now W) stream s p (ucast l)")
    case (Inl err)
    with Cons.prems(1) st have "x = Fatal err" "evs = map (\<lambda>s. InitCall s p (ucast l)) ([] @ [s])"
      by simp_all
    with st Inl show ?thesis
      by (intro exI [of _ "[]"] exI [of _ s] exI [of _ ks] exI [of _ stream] exI [of _ err]) simp
  next
    case (Inr stream1)
    with Cons.prems(1) st obtain evs' where
      r: "init_streams W p l ks (state(s \<mapsto> stream1)) = (evs', Inl x)"
      and e: "evs = InitCall s p (ucast l) # evs'"
      by (auto split: prod.splits)
    from Cons.prems(2) have d: "distinct ks" and n: "s \<notin> set ks"
      by simp_all
    from Cons.prems(3) have sub: "set ks \<subseteq> dom (state(s \<mapsto> stream1))"
      by auto
    from Cons.IH [OF r d sub] obtain pre k post stream' err where
      ih: "ks = pre @ k # post" "(state(s \<mapsto> stream1)) k = Some stream'"
        "Init W (Now W) stream' k p (ucast l) = Inl err" "x = Fatal err"
        "evs' = map (\<lambda>s. InitCall s p (ucast l)) (pre @ [k])"
      by blast
    from ih(1) n have "k \<noteq> s" by auto
    with ih(2) have sk: "state k = Some stream'" by simp
    from ih(1) have ks: "s # ks = (s # pre) @ k # post" by simp
    from e ih(5) have ev: "evs = map (\<lambda>s. InitCall s p (ucast l)) ((s # pre) @ [k])" by simp
    from ks sk ih(3,4) ev show ?thesis
      by blast
  qed
qed


lemma count_list_InitCall:
  "distinct ks \<Longrightarrow> k \<in> set ks \<Longrightarrow> count_list (map (\<lambda>s. InitCall s p l) ks) (InitCall k p l) = 1"
proof (induction ks)
  case Nil
  then show ?case by simp
next
  case (Cons a ks)
  show ?case
  proof (cases "a = k")
    case True
    with Cons.prems have "k \<notin> set ks" by simp
    then have "InitCall k p l \<notin> set (map (\<lambda>s. InitCall s p l) ks)" by auto
    then have "count_list (map (\<lambda>s. InitCall s p l) ks) (InitCall k p l) = 0"
      by (rule count_list_0_iff [THEN iffD2])
    with True show ?thesis by simp
  next
    case False
    with Cons show ?thesis by simp
  qed
qed

lemma main_init_failed:
  assumes "region_of W F \<noteq> []" and "queue_of W F \<noteq> []"
      and "connect W F (region_of W F) (queue_of W F) = (evs0, Inr Q)"
      and "LoadStreams W (config F) = Inr state"
      and "init_streams W (probation F) (level F) (rangeOrder W state) state = (evs1, Inl x)"
  shows "main W F = (evs0 @ LoadStreamsCall (config F) # evs1, x)"
  using assms by (simp add: main_def Let_def)

text \<open>
  C7. Take a run that gets past the queue and whose \<^verbatim>\<open>LoadStreams\<close> returns a map, the
  range visiting each of its keys once. Either every \<^verbatim>\<open>Init\<close> succeeds: then the events
  are those of the startup, one \<^verbatim>\<open>Init\<close> call for each key of the range, and after them
  the events of the file loop, none of which is an \<^verbatim>\<open>Init\<close> call; every configured
  channel is initialised exactly once, from the stream that \<^verbatim>\<open>LoadStreams\<close> returned,
  before the first file is opened. Or some \<^verbatim>\<open>Init\<close> fails: then the run ends with
  \<^verbatim>\<open>log.Fatal\<close> of that error, right after that call; the channels later in the range
  are not initialised and no file is opened.
\<close>

theorem init_once_before_blocks:
  assumes "region_of W F \<noteq> []" and "queue_of W F \<noteq> []"
      and "connect W F (region_of W F) (queue_of W F) = (evs0, Inr Q)"
      and "LoadStreams W (config F) = Inr state"
      and "distinct (rangeOrder W state)" and "set (rangeOrder W state) = dom state"
  shows "(\<exists>state1 evs2.
            (\<forall>k \<in> dom state. \<exists>stream stream1. state k = Some stream
               \<and> Init W (Now W) stream k (probation F) (ucast (level F)) = Inr stream1
               \<and> state1 k = Some stream1)
          \<and> evs2 = fst (file_loop W F Q (args F) state1 Map.empty)
          \<and> fst (main W F) =
              evs0 @ LoadStreamsCall (config F)
                # map (\<lambda>s. InitCall s (probation F) (ucast (level F))) (rangeOrder W state) @ evs2
          \<and> (\<forall>e \<in> set evs2. loop_event e)
          \<and> (\<forall>k \<in> dom state.
               count_list (fst (main W F)) (InitCall k (probation F) (ucast (level F))) = 1))
       \<or> (\<exists>pre k post stream err.
            rangeOrder W state = pre @ k # post \<and> state k = Some stream
          \<and> Init W (Now W) stream k (probation F) (ucast (level F)) = Inl err
          \<and> main W F =
              (evs0 @ LoadStreamsCall (config F)
                 # map (\<lambda>s. InitCall s (probation F) (ucast (level F))) (pre @ [k]),
               Fatal err))"
proof -
  let ?ks = "rangeOrder W state"
  let ?call = "\<lambda>s. InitCall s (probation F) (ucast (level F)) :: ('c, 'd) event"
  obtain evs1 res where i: "init_streams W (probation F) (level F) ?ks state = (evs1, res)"
    by (cases "init_streams W (probation F) (level F) ?ks state")
  show ?thesis
  proof (cases res)
    case (Inl x)
    from assms(6) have sub: "set ?ks \<subseteq> dom state" by simp
    from init_streams_Inl [OF i [unfolded Inl] assms(5) sub] obtain pre k post stream err where
      f: "?ks = pre @ k # post" "state k = Some stream"
        "Init W (Now W) stream k (probation F) (ucast (level F)) = Inl err" "x = Fatal err"
        "evs1 = map ?call (pre @ [k])"
      by blast
    from main_init_failed [OF assms(1-4) i [unfolded Inl]] f(4,5)
    have "main W F = (evs0 @ LoadStreamsCall (config F) # map ?call (pre @ [k]), Fatal err)"
      by simp
    with f(1-3) show ?thesis
      by blast
  next
    case (Inr state1)
    note i' = i [unfolded Inr]
    from init_streams_Inr [OF i' assms(5)] assms(6) have
      e1: "evs1 = map ?call ?ks"
      and s1: "\<forall>k \<in> dom state. \<exists>stream stream1. state k = Some stream
               \<and> Init W (Now W) stream k (probation F) (ucast (level F)) = Inr stream1
               \<and> state1 k = Some stream1"
      by blast+
    obtain evs2 state2 missing2 x where
      fl: "file_loop W F Q (args F) state1 Map.empty = (evs2, state2, missing2, x)"
      by (cases "file_loop W F Q (args F) state1 Map.empty")
    have m: "main W F = (evs0 @ LoadStreamsCall (config F) # evs1 @ evs2, x)"
      by (rule main_started [OF assms(1-4) i' fl])
    have le: "\<forall>e \<in> set evs2. loop_event e"
      using file_loop_loop_events [OF fl] by blast
    have c: "count_list (fst (main W F)) (?call k) = 1" if "k \<in> dom state" for k
    proof -
      have "?call k \<notin> set evs0"
        using connect_events [OF assms(3), of "?call k"] by auto
      then have z0: "count_list evs0 (?call k) = 0"
        by (rule count_list_0_iff [THEN iffD2])
      have "?call k \<notin> set evs2"
        using le by auto
      then have z2: "count_list evs2 (?call k) = 0"
        by (rule count_list_0_iff [THEN iffD2])
      from that assms(6) have "k \<in> set ?ks" by simp
      from count_list_InitCall [OF assms(5) this] have "count_list (map ?call ?ks) (?call k) = 1" .
      with m e1 z0 z2 show ?thesis by simp
    qed
    have "(\<forall>k \<in> dom state. \<exists>stream stream1. state k = Some stream
               \<and> Init W (Now W) stream k (probation F) (ucast (level F)) = Inr stream1
               \<and> state1 k = Some stream1)
          \<and> evs2 = fst (file_loop W F Q (args F) state1 Map.empty)
          \<and> fst (main W F) = evs0 @ LoadStreamsCall (config F) # map ?call ?ks @ evs2
          \<and> (\<forall>e \<in> set evs2. loop_event e)
          \<and> (\<forall>k \<in> dom state. count_list (fst (main W F)) (?call k) = 1)"
      using s1 fl m e1 le c by simp
    then show ?thesis
      by blast
  qed
qed


theorem init_once_before_blocks_witness:
  "region_of sample_world sample_flags \<noteq> []
   \<and> queue_of sample_world sample_flags \<noteq> []
   \<and> connect sample_world sample_flags (region_of sample_world sample_flags)
        (queue_of sample_world sample_flags)
       = ([GetAuthCall [] [] (1000 * Second + 30 * Minute), GetQueueCall ''ap-southeast-2'' ''impact''],
          Inr (Some ()))
   \<and> LoadStreams sample_world (config sample_flags) = Inr sample_streams
   \<and> distinct (rangeOrder sample_world sample_streams)
   \<and> set (rangeOrder sample_world sample_streams) = dom sample_streams
   \<and> count_list (fst (main sample_world sample_flags)) (InitCall ''NZ_WEL_10_HNZ'' (10 * Minute) 2) = 1
   \<and> count_list (fst (main sample_world sample_flags)) (InitCall ''NZ_KHZ_10_HNZ'' (10 * Minute) 2) = 1
   \<and> (\<exists>evs. main sample_world (sample_flags\<lparr>level := 7\<rparr>) = (evs, Fatal ''invalid level''))"
proof -
  let ?F = "sample_flags\<lparr>level := 7\<rparr>"
  let ?evs0 = "[GetAuthCall [] [] (1000 * Second + 30 * Minute), GetQueueCall ''ap-southeast-2'' ''impact'']
                 :: (int, unit Notice_ext) event list"
  have r: "region_of sample_world sample_flags \<noteq> []" "region_of sample_world ?F \<noteq> []"
    by (simp_all add: sample_world_def sample_flags_def)
  have q: "queue_of sample_world sample_flags \<noteq> []" "queue_of sample_world ?F \<noteq> []"
    by (simp_all add: sample_world_def sample_flags_def)
  have c: "connect sample_world sample_flags (region_of sample_world sample_flags)
             (queue_of sample_world sample_flags) = (?evs0, Inr (Some ()))"
    "connect sample_world ?F (region_of sample_world ?F) (queue_of sample_world ?F)
       = (?evs0, Inr (Some ()))"
    by (simp_all add: connect_def sample_world_def sample_flags_def)
  have l: "LoadStreams sample_world (config sample_flags) = Inr sample_streams"
    "LoadStreams sample_world (config ?F) = Inr sample_streams"
    by (simp_all add: sample_world_def)
  have d: "distinct (rangeOrder sample_world sample_streams)"
    by (simp add: sample_world_def)
  have s: "set (rangeOrder sample_world sample_streams) = dom sample_streams"
    by (auto simp: sample_world_def sample_streams_def)
  have dm: "''NZ_WEL_10_HNZ'' \<in> dom sample_streams" "''NZ_KHZ_10_HNZ'' \<in> dom sample_streams"
    by (simp_all add: sample_streams_def)
  have ok: "Init sample_world t st k (probation sample_flags) (ucast (level sample_flags)) \<noteq> Inl err"
    for t st k err
    by (simp add: sample_world_def sample_flags_def)
  have bad: "Init sample_world t st k (probation ?F) (ucast (level ?F)) = Inl err \<longleftrightarrow> err = ''invalid level''"
    for t st k err
    by (auto simp: sample_world_def sample_flags_def)
  have pl: "probation sample_flags = 10 * Minute" "ucast (level sample_flags) = (2 :: 32 word)"
    by (simp_all add: sample_flags_def)
  from init_once_before_blocks [OF r(1) q(1) c(1) l(1) d s]
  have cnt: "\<forall>k \<in> dom sample_streams.
          count_list (fst (main sample_world sample_flags))
            (InitCall k (probation sample_flags) (ucast (level sample_flags))) = 1"
  proof (elim disjE exE conjE)
    fix state1 :: "string \<rightharpoonup> Channel" and evs2 :: "(int, unit Notice_ext) event list"
    assume "\<forall>k \<in> dom sample_streams.
          count_list (fst (main sample_world sample_flags))
            (InitCall k (probation sample_flags) (ucast (level sample_flags))) = 1"
    then show ?thesis .
  next
    fix stream k err
    assume "Init sample_world (Now sample_world) stream k (probation sample_flags)
              (ucast (level sample_flags)) = Inl err"
    with ok show ?thesis by simp
  qed
  from cnt dm(1) have "count_list (fst (main sample_world sample_flags))
      (InitCall ''NZ_WEL_10_HNZ'' (probation sample_flags) (ucast (level sample_flags))) = 1"
    by (rule bspec)
  then have n1: "count_list (fst (main sample_world sample_flags))
      (InitCall ''NZ_WEL_10_HNZ'' (10 * Minute) 2) = 1"
    unfolding pl .
  from cnt dm(2) have "count_list (fst (main sample_world sample_flags))
      (InitCall ''NZ_KHZ_10_HNZ'' (probation sample_flags) (ucast (level sample_flags))) = 1"
    by (rule bspec)
  then have n2: "count_list (fst (main sample_world sample_flags))
      (InitCall ''NZ_KHZ_10_HNZ'' (10 * Minute) 2) = 1"
    unfolding pl .
  from init_once_before_blocks [OF r(2) q(2) c(2) l(2) d s]
  have f: "\<exists>evs. main sample_world ?F = (evs, Fatal ''invalid level'')"
  proof (elim disjE exE conjE)
    fix state1 :: "string \<rightharpoonup> Channel"
    assume "\<forall>k \<in> dom sample_streams. \<exists>stream stream1. sample_streams k = Some stream
               \<and> Init sample_world (Now sample_world) stream k (probation ?F) (ucast (level ?F)) = Inr stream1
               \<and> state1 k = Some stream1"
    from this dm(1) have "\<exists>stream stream1. sample_streams ''NZ_WEL_10_HNZ'' = Some stream
               \<and> Init sample_world (Now sample_world) stream ''NZ_WEL_10_HNZ'' (probation ?F) (ucast (level ?F))
                   = Inr stream1
               \<and> state1 ''NZ_WEL_10_HNZ'' = Some stream1"
      by (rule bspec)
    then show ?thesis
      by (simp add: sample_world_def sample_flags_def)
  next
    fix pre :: "string list" and stream k err
    assume i: "Init sample_world (Now sample_world) stream k (probation ?F) (ucast (level ?F)) = Inl err"
      and m: "main sample_world ?F =
          (?evs0 @ LoadStreamsCall (config ?F)
             # map (\<lambda>s. InitCall s (probation ?F) (ucast (level ?F))) (pre @ [k]), Fatal err)"
    from i bad have "err = ''invalid level''" by simp
    with m show ?thesis by simp
  qed
  note n = n1 n2
  from r(1) q(1) c(1) l(1) d s n f show ?thesis
    by blast
qed

section \<open>The settings of Init\<close>

text \<open>
  Lines 84 to 90 hand the same two values to every \<^verbatim>\<open>Init\<close> call of a run: the flag
  \<^verbatim>\<open>-probation\<close> and the flag \<^verbatim>\<open>-level\<close> converted to \<^verbatim>\<open>int32\<close>. What \<^verbatim>\<open>Init\<close> makes
  of them, and of what the stream itself holds, is not in \<^verbatim>\<open>main.go\<close>.
\<close>

lemma set_init_calls: "(s, p, l) \<in> set (init_calls evs) \<longleftrightarrow> InitCall s p l \<in> set evs"
  by (induction evs rule: init_calls.induct) auto

lemma main_InitCall:
  assumes "InitCall k p l \<in> set (fst (main W F))"
  shows "p = probation F \<and> l = ucast (level F)"
proof (cases rule: main_cases [of W F])
  case no_region
  with assms show ?thesis by simp
next
  case no_queue
  with assms show ?thesis by simp
next
  case (no_connect evs0 err)
  with assms connect_events [OF no_connect(1), of "InitCall k p l"] show ?thesis by auto
next
  case (no_config evs0 Q err)
  with assms connect_events [OF no_config(1), of "InitCall k p l"] show ?thesis by auto
next
  case (no_init evs0 Q state evs1 x)
  with assms connect_events [OF no_init(1), of "InitCall k p l"]
    init_streams_events [OF no_init(3), of "InitCall k p l"]
  show ?thesis by auto
next
  case (run evs0 Q state evs1 state1 evs2 state2 missing2 x)
  with assms connect_events [OF run(1), of "InitCall k p l"]
    init_streams_events [OF run(3), of "InitCall k p l"]
    file_loop_loop_events [OF run(4), of "InitCall k p l"]
  show ?thesis by auto
qed

section \<open>Dry runs\<close>

lemma process_block_no_queue_event:
  "process_block W F now msr state missing = (evs, state1, missing1, out) \<Longrightarrow> e \<in> set evs \<Longrightarrow>
   \<not> queue_event e"
  by (auto simp: process_block_def Let_def split: option.splits sum.splits prod.splits if_splits)

lemma process_block_dryrun:
  "process_block W (F\<lparr>dryrun := b\<rparr>) now msr state missing = process_block W F now msr state missing"
  by (simp add: process_block_def Let_def split: option.splits sum.splits prod.splits)

lemma deliver_dry:
  "dryrun F \<Longrightarrow> deliver W F Q now m = (devs, x) \<Longrightarrow> e \<in> set devs \<Longrightarrow> \<not> queue_event e"
  by (auto simp: deliver_def Let_def split: sum.splits option.splits if_splits)

lemma deliver_dryrun:
  assumes "\<And>mm. SendMessage W now q mm = None"
  shows "deliver W (F\<lparr>dryrun := True\<rparr>) None now m =
           (filter (\<lambda>e. \<not> queue_event e) (fst (deliver W (F\<lparr>dryrun := False\<rparr>) (Some q) now m)),
            snd (deliver W (F\<lparr>dryrun := False\<rparr>) (Some q) now m))"
  using assms by (simp add: deliver_def Let_def split: sum.splits)

lemma read_loop_dry:
  assumes "dryrun F"
  shows "read_loop W F Q rs state missing = (evs, state1, missing1, x) \<Longrightarrow> e \<in> set evs \<Longrightarrow>
         \<not> queue_event e"
proof (induction rs arbitrary: state missing evs state1 missing1 x)
  case Nil
  then show ?case by simp
next
  case (Cons r rs)
  show ?case
  proof (cases r)
    case (ReadError err)
    with Cons.prems show ?thesis by simp
  next
    case (Block now msr)
    obtain bevs s1 m1 out where pb: "process_block W F now msr state missing = (bevs, s1, m1, out)"
      by (cases "process_block W F now msr state missing")
    obtain evs2 s2 m2 x2 where rl: "read_loop W F Q rs s1 m1 = (evs2, s2, m2, x2)"
      by (cases "read_loop W F Q rs s1 m1")
    note b = process_block_no_queue_event [OF pb, of e]
    note r = Cons.IH [OF rl]
    show ?thesis
    proof (cases out)
      case None
      with Cons.prems Block pb rl b r show ?thesis by auto
    next
      case (Some m)
      obtain devs dx where dl: "deliver W F Q now m = (devs, dx)"
        by (cases "deliver W F Q now m")
      note d = deliver_dry [OF assms dl, of e]
      from Cons.prems Block pb rl b r Some dl d show ?thesis
        by (cases dx) auto
    qed
  qed
qed

lemma file_loop_dry:
  assumes "dryrun F"
  shows "file_loop W F Q fs state missing = (evs, state1, missing1, x) \<Longrightarrow> e \<in> set evs \<Longrightarrow>
         \<not> queue_event e"
proof (induction fs arbitrary: state missing evs state1 missing1 x)
  case Nil
  then show ?case by simp
next
  case (Cons f fs)
  show ?case
  proof (cases "Open W f")
    case (Inl err)
    with Cons.prems show ?thesis by (auto simp: Let_def split: if_splits)
  next
    case (Inr rs)
    obtain evs1 s1 m1 x1 where rl: "read_loop W F Q rs state missing = (evs1, s1, m1, x1)"
      by (cases "read_loop W F Q rs state missing")
    obtain evs2 s2 m2 x2 where fl: "file_loop W F Q fs s1 m1 = (evs2, s2, m2, x2)"
      by (cases "file_loop W F Q fs s1 m1")
    note a = read_loop_dry [OF assms rl, of e]
    note b = Cons.IH [OF fl]
    from Cons.prems Inr rl fl a b show ?thesis
      by (cases x1) (auto simp: Let_def split: if_splits)
  qed
qed

lemma connect_dry: "dryrun F \<Longrightarrow> connect W F r q = ([], Inr None)"
  by (simp add: connect_def)

lemma init_streams_no_queue_event:
  "init_streams W p l ks state = (evs, res) \<Longrightarrow> e \<in> set evs \<Longrightarrow> \<not> queue_event e"
  using init_streams_events [of W p l ks state evs res e] by auto

lemma main_dry:
  assumes "dryrun F" and "e \<in> set (fst (main W F))"
  shows "\<not> queue_event e"
proof (cases rule: main_cases [of W F])
  case no_region
  with assms show ?thesis by simp
next
  case no_queue
  with assms show ?thesis by simp
next
  case (no_connect evs0 err)
  with assms connect_dry [OF assms(1), of W "region_of W F" "queue_of W F"] show ?thesis by simp
next
  case (no_config evs0 Q err)
  with assms connect_dry [OF assms(1), of W "region_of W F" "queue_of W F"] show ?thesis by auto
next
  case (no_init evs0 Q state evs1 x)
  with assms connect_dry [OF assms(1), of W "region_of W F" "queue_of W F"]
    init_streams_no_queue_event [OF no_init(3), of e]
  show ?thesis by auto
next
  case (run evs0 Q state evs1 state1 evs2 state2 missing2 x)
  with assms connect_dry [OF assms(1), of W "region_of W F" "queue_of W F"]
    init_streams_no_queue_event [OF run(3), of e]
    file_loop_dry [OF assms(1) run(4), of e]
  show ?thesis by auto
qed


lemma filter_no_queue_event:
  "(\<And>e. e \<in> set evs \<Longrightarrow> \<not> queue_event e) \<Longrightarrow> filter (\<lambda>e. \<not> queue_event e) evs = evs"
  by (simp add: filter_id_conv)

lemma read_loop_dryrun:
  assumes "\<And>now mm. SendMessage W now q mm = None"
  shows "read_loop W (F\<lparr>dryrun := True\<rparr>) None rs state missing =
           (filter (\<lambda>e. \<not> queue_event e) (fst (read_loop W (F\<lparr>dryrun := False\<rparr>) (Some q) rs state missing)),
            snd (read_loop W (F\<lparr>dryrun := False\<rparr>) (Some q) rs state missing))"
proof (induction rs arbitrary: state missing)
  case Nil
  show ?case by simp
next
  case (Cons r rs)
  show ?case
  proof (cases r)
    case (ReadError err)
    then show ?thesis by simp
  next
    case (Block now msr)
    obtain bevs s1 m1 out where pb: "process_block W F now msr state missing = (bevs, s1, m1, out)"
      by (cases "process_block W F now msr state missing")
    have f: "filter (\<lambda>e. \<not> queue_event e) bevs = bevs"
      using process_block_no_queue_event [OF pb] by (rule filter_no_queue_event)
    note ih = Cons.IH [of s1 m1]
    show ?thesis
    proof (cases out)
      case None
      with Block pb f ih show ?thesis
        by (simp add: process_block_dryrun split: prod.splits)
    next
      case (Some m)
      note d = deliver_dryrun [where W = W and q = q and F = F and now = now and m = m, OF assms]
      obtain devs dx where dl: "deliver W (F\<lparr>dryrun := False\<rparr>) (Some q) now m = (devs, dx)"
        by (cases "deliver W (F\<lparr>dryrun := False\<rparr>) (Some q) now m")
      from d dl have dd: "deliver W (F\<lparr>dryrun := True\<rparr>) None now m = (filter (\<lambda>e. \<not> queue_event e) devs, dx)"
        by simp
      from Block pb f ih Some dl dd show ?thesis
        by (cases dx) (simp_all add: process_block_dryrun split: prod.splits)
    qed
  qed
qed

lemma file_loop_dryrun:
  assumes "\<And>now mm. SendMessage W now q mm = None"
  shows "file_loop W (F\<lparr>dryrun := True\<rparr>) None fs state missing =
           (filter (\<lambda>e. \<not> queue_event e) (fst (file_loop W (F\<lparr>dryrun := False\<rparr>) (Some q) fs state missing)),
            snd (file_loop W (F\<lparr>dryrun := False\<rparr>) (Some q) fs state missing))"
proof (induction fs arbitrary: state missing)
  case Nil
  show ?case by simp
next
  case (Cons f fs)
  show ?case
  proof (cases "Open W f")
    case (Inl err)
    then show ?thesis by (simp add: Let_def)
  next
    case (Inr rs)
    note r = read_loop_dryrun [where W = W and q = q and F = F and rs = rs and state = state
        and missing = missing, OF assms]
    obtain evs1 s1 m1 x1 where
      rl: "read_loop W (F\<lparr>dryrun := False\<rparr>) (Some q) rs state missing = (evs1, s1, m1, x1)"
      by (cases "read_loop W (F\<lparr>dryrun := False\<rparr>) (Some q) rs state missing")
    from r rl have rd: "read_loop W (F\<lparr>dryrun := True\<rparr>) None rs state missing
        = (filter (\<lambda>e. \<not> queue_event e) evs1, s1, m1, x1)"
      by simp
    note ih = Cons.IH [of s1 m1]
    from Inr rl rd ih show ?thesis
      by (cases x1) (simp_all add: Let_def split: prod.splits)
  qed
qed

lemma init_streams_filter:
  "init_streams W p l ks state = (evs, res) \<Longrightarrow> filter (\<lambda>e. \<not> queue_event e) evs = evs"
  using init_streams_no_queue_event [of W p l ks state evs res] by (rule filter_no_queue_event)

lemma main_no_region:
  "region_of W F = [] \<Longrightarrow>
   main W F = ([], Fatal ''unable to find region in environment or command line [AWS_IMPACT_REGION]'')"
  by (simp add: main_def Let_def)

lemma main_no_queue:
  "region_of W F \<noteq> [] \<Longrightarrow> queue_of W F = [] \<Longrightarrow>
   main W F = ([], Fatal ''unable to find queue in environment or command line [AWS_IMPACT_QUEUE]'')"
  by (simp add: main_def Let_def)

lemma main_no_config:
  "region_of W F \<noteq> [] \<Longrightarrow> queue_of W F \<noteq> [] \<Longrightarrow>
   connect W F (region_of W F) (queue_of W F) = (evs0, Inr Q) \<Longrightarrow>
   LoadStreams W (config F) = Inl err \<Longrightarrow>
   main W F = (evs0 @ [LoadStreamsCall (config F)], Fatal err)"
  by (simp add: main_def Let_def)

lemma connect_ok:
  "\<not> dryrun F \<Longrightarrow> GetAuth W (key F) (secret F) (Now W + 30 * Minute) = Inr A \<Longrightarrow>
   GetQueue W A r q' = Inr q \<Longrightarrow>
   connect W F r q' =
     ([GetAuthCall (key F) (secret F) (Now W + 30 * Minute), GetQueueCall r q'], Inr (Some q))"
  by (simp add: connect_def)

lemma main_dryrun:
  assumes "GetAuth W (key F) (secret F) (Now W + 30 * Minute) = Inr A"
      and "GetQueue W A (region_of W F) (queue_of W F) = Inr q"
      and "\<And>now mm. SendMessage W now q mm = None"
  shows "main W (F\<lparr>dryrun := True\<rparr>) =
           (filter (\<lambda>e. \<not> queue_event e) (fst (main W (F\<lparr>dryrun := False\<rparr>))),
            snd (main W (F\<lparr>dryrun := False\<rparr>)))"
proof -
  let ?Fd = "F\<lparr>dryrun := True\<rparr>" and ?Fn = "F\<lparr>dryrun := False\<rparr>"
  have cd: "connect W ?Fd (region_of W ?Fd) (queue_of W ?Fd) = ([], Inr None)"
    by (simp add: connect_def)
  have e: "region_of W ?Fn = region_of W F" "queue_of W ?Fn = queue_of W F"
    by simp_all
  have ed: "region_of W ?Fd = region_of W F" "queue_of W ?Fd = queue_of W F"
    by simp_all
  from connect_ok [of ?Fn W A "region_of W F" "queue_of W F" q] assms(1,2)
  have cn0: "connect W ?Fn (region_of W F) (queue_of W F) =
      ([GetAuthCall (key F) (secret F) (Now W + 30 * Minute),
        GetQueueCall (region_of W F) (queue_of W F)], Inr (Some q))"
    by (simp split del: if_split)
  have cn: "connect W ?Fn (region_of W ?Fn) (queue_of W ?Fn) =
      ([GetAuthCall (key F) (secret F) (Now W + 30 * Minute),
        GetQueueCall (region_of W F) (queue_of W F)], Inr (Some q))"
    unfolding e by (rule cn0)
  show ?thesis
  proof (cases "region_of W F = []")
    case True
    from True have t1: "region_of W ?Fd = []"
      unfolding ed .
    from True have t2: "region_of W ?Fn = []"
      unfolding e .
    show ?thesis
      unfolding main_no_region [OF t1] main_no_region [OF t2] by simp
  next
    case r: False
    from r have rd: "region_of W ?Fd \<noteq> []"
      unfolding ed .
    from r have rn: "region_of W ?Fn \<noteq> []"
      unfolding e .
    show ?thesis
    proof (cases "queue_of W F = []")
      case True
      from True have t1: "queue_of W ?Fd = []"
        unfolding ed .
      from True have t2: "queue_of W ?Fn = []"
        unfolding e .
      show ?thesis
        unfolding main_no_queue [OF rd t1] main_no_queue [OF rn t2] by simp
    next
      case qn: False
      from qn have qd: "queue_of W ?Fd \<noteq> []"
        unfolding ed .
      from qn have qn': "queue_of W ?Fn \<noteq> []"
        unfolding e .
      show ?thesis
      proof (cases "LoadStreams W (config F)")
        case (Inl err)
        then have l: "LoadStreams W (config ?Fd) = Inl err" "LoadStreams W (config ?Fn) = Inl err"
          by simp_all
        show ?thesis
          unfolding main_no_config [OF rd qd cd l(1)] main_no_config [OF rn qn' cn l(2)]
          by simp
      next
        case (Inr state)
        then have l: "LoadStreams W (config ?Fd) = Inr state" "LoadStreams W (config ?Fn) = Inr state"
          by simp_all
        obtain evs1 res where i: "init_streams W (probation F) (level F) (rangeOrder W state) state = (evs1, res)"
          by (cases "init_streams W (probation F) (level F) (rangeOrder W state) state")
        note fi = init_streams_filter [OF i]
        show ?thesis
        proof (cases res)
          case (Inl x)
          with i have ii:
            "init_streams W (probation ?Fd) (level ?Fd) (rangeOrder W state) state = (evs1, Inl x)"
            "init_streams W (probation ?Fn) (level ?Fn) (rangeOrder W state) state = (evs1, Inl x)"
            by simp_all
          show ?thesis
            unfolding main_init_failed [OF rd qd cd l(1) ii(1)] main_init_failed [OF rn qn' cn l(2) ii(2)]
            using fi by simp
        next
          case st: (Inr state1)
          with i have ii:
            "init_streams W (probation ?Fd) (level ?Fd) (rangeOrder W state) state = (evs1, Inr state1)"
            "init_streams W (probation ?Fn) (level ?Fn) (rangeOrder W state) state = (evs1, Inr state1)"
            by simp_all
          note fl = file_loop_dryrun [where W = W and q = q and F = F and fs = "args F"
              and state = state1 and missing = Map.empty, OF assms(3)]
          obtain evs2 state2 missing2 x where
            fn: "file_loop W ?Fn (Some q) (args F) state1 Map.empty = (evs2, state2, missing2, x)"
            by (cases "file_loop W ?Fn (Some q) (args F) state1 Map.empty")
          from fl fn have fd: "file_loop W ?Fd None (args F) state1 Map.empty
              = (filter (\<lambda>e. \<not> queue_event e) evs2, state2, missing2, x)"
            by simp
          from fn have fn': "file_loop W ?Fn (Some q) (args ?Fn) state1 Map.empty = (evs2, state2, missing2, x)"
            by simp
          from fd have fd': "file_loop W ?Fd None (args ?Fd) state1 Map.empty
              = (filter (\<lambda>e. \<not> queue_event e) evs2, state2, missing2, x)"
            by simp
          show ?thesis
            unfolding main_started [OF rd qd cd l(1) ii(1) fd'] main_started [OF rn qn' cn l(2) ii(2) fn']
            using fi by simp
        qed
      qed
    qed
  qed
qed


text \<open>
  C10. With \<^verbatim>\<open>-dry-run\<close> no run has an event of the queue service: neither \<^verbatim>\<open>GetAuth\<close>
  nor \<^verbatim>\<open>GetQueue\<close> is called and nothing is sent. Everything else is as in the run
  without the flag whose queue calls all succeed: the dry run has that run's events,
  in that order, with the queue events left out, and ends the same way. So the
  lookups, the calls of \<^verbatim>\<open>ProcessSamples\<close> and \<^verbatim>\<open>Flush\<close>, the log entries, the sends on
  \<^verbatim>\<open>result\<close> and the printed messages are the same.
\<close>

theorem dry_run_sends_nothing:
  "(dryrun F \<longrightarrow> filter queue_event (fst (main W F)) = [])
   \<and> (GetAuth W (key F) (secret F) (Now W + 30 * Minute) = Inr A \<longrightarrow>
      GetQueue W A (region_of W F) (queue_of W F) = Inr q \<longrightarrow>
      (\<forall>now mm. SendMessage W now q mm = None) \<longrightarrow>
        main W (F\<lparr>dryrun := True\<rparr>) =
          (filter (\<lambda>e. \<not> queue_event e) (fst (main W (F\<lparr>dryrun := False\<rparr>))),
           snd (main W (F\<lparr>dryrun := False\<rparr>))))"
proof (intro conjI impI)
  assume "dryrun F"
  then have "\<forall>e \<in> set (fst (main W F)). \<not> queue_event e"
    using main_dry [of F _ W] by blast
  then show "filter queue_event (fst (main W F)) = []"
    by (simp add: filter_empty_conv)
next
  assume a: "GetAuth W (key F) (secret F) (Now W + 30 * Minute) = Inr A"
    and g: "GetQueue W A (region_of W F) (queue_of W F) = Inr q"
    and n: "\<forall>now mm. SendMessage W now q mm = None"
  from n have n': "\<And>now mm. SendMessage W now q mm = None"
    by blast
  show "main W (F\<lparr>dryrun := True\<rparr>) =
          (filter (\<lambda>e. \<not> queue_event e) (fst (main W (F\<lparr>dryrun := False\<rparr>))),
           snd (main W (F\<lparr>dryrun := False\<rparr>)))"
    by (rule main_dryrun [OF a g n'])
qed

theorem dry_run_sends_nothing_witness:
  "dryrun (sample_flags\<lparr>dryrun := True\<rparr>)
   \<and> filter queue_event (fst (main sample_world (sample_flags\<lparr>dryrun := True\<rparr>))) = []
   \<and> GetAuth sample_world (key sample_flags) (secret sample_flags) (Now sample_world + 30 * Minute) = Inr ()
   \<and> GetQueue sample_world () (region_of sample_world sample_flags) (queue_of sample_world sample_flags)
       = Inr ()
   \<and> (\<forall>now mm. SendMessage sample_world now () mm = None)
   \<and> main sample_world (sample_flags\<lparr>dryrun := True\<rparr>) =
       ([LoadStreamsCall ''impact.json'',
         InitCall ''NZ_KHZ_10_HNZ'' 600000000000 2,
         InitCall ''NZ_WEL_10_HNZ'' 600000000000 2,
         PrintFile ''a.mseed'',
         OpenCall ''a.mseed'',
         Lookup ''NZ_WEL_10_HNZ'',
         ProcessCall ''NZ.WEL'' ''NZ_WEL_10_HNZ'' 1900000000000,
         FlushCall ''NZ_WEL_10_HNZ'' 0 0,
         Emit \<lparr>Time = 1900000000000, MMI = 0, Label = ''NZ.WEL'', Key = ''NZ_WEL_10_HNZ''\<rparr>,
         Println ''NZ.WEL NZ_WEL_10_HNZ'',
         Lookup ''NZ_XXX_10_HNZ'',
         LogMissing ''NZ_XXX_10_HNZ'',
         Lookup ''NZ_WEL_10_HNZ'',
         ProcessCall ''NZ.WEL'' ''NZ_WEL_10_HNZ'' 1902000000000,
         FlushCall ''NZ_WEL_10_HNZ'' 0 0,
         Lookup ''NZ_WEL_10_HNZ'',
         ProcessCall ''NZ.WEL'' ''NZ_WEL_10_HNZ'' 1904000000000,
         FlushCall ''NZ_WEL_10_HNZ'' 0 2,
         Emit \<lparr>Time = 1904000000000, MMI = 2, Label = ''NZ.WEL'', Key = ''NZ_WEL_10_HNZ''\<rparr>,
         Println ''NZ.WEL NZ_WEL_10_HNZ''],
        Done)"
proof -
  let ?Fd = "sample_flags\<lparr>dryrun := True\<rparr>"
  have d: "dryrun ?Fd"
    by simp
  have a: "GetAuth sample_world (key sample_flags) (secret sample_flags) (Now sample_world + 30 * Minute)
             = Inr ()"
    by (simp add: sample_world_def)
  have g: "GetQueue sample_world () (region_of sample_world sample_flags)
             (queue_of sample_world sample_flags) = Inr ()"
    by (simp add: sample_world_def)
  have n: "\<forall>now mm. SendMessage sample_world now () mm = None"
    by (simp add: sample_world_def)
  have f: "sample_flags\<lparr>dryrun := False\<rparr> = sample_flags"
    by (simp add: sample_flags_def)
  note T1 = dry_run_sends_nothing [where F = ?Fd and W = sample_world, THEN conjunct1, THEN mp, OF d]
  note T2 = dry_run_sends_nothing [where F = sample_flags and W = sample_world and A = "()" and q = "()",
      THEN conjunct2, THEN mp, THEN mp, THEN mp, OF a g n]
  from T2 have r: "main sample_world ?Fd =
       ([LoadStreamsCall ''impact.json'',
         InitCall ''NZ_KHZ_10_HNZ'' 600000000000 2,
         InitCall ''NZ_WEL_10_HNZ'' 600000000000 2,
         PrintFile ''a.mseed'',
         OpenCall ''a.mseed'',
         Lookup ''NZ_WEL_10_HNZ'',
         ProcessCall ''NZ.WEL'' ''NZ_WEL_10_HNZ'' 1900000000000,
         FlushCall ''NZ_WEL_10_HNZ'' 0 0,
         Emit \<lparr>Time = 1900000000000, MMI = 0, Label = ''NZ.WEL'', Key = ''NZ_WEL_10_HNZ''\<rparr>,
         Println ''NZ.WEL NZ_WEL_10_HNZ'',
         Lookup ''NZ_XXX_10_HNZ'',
         LogMissing ''NZ_XXX_10_HNZ'',
         Lookup ''NZ_WEL_10_HNZ'',
         ProcessCall ''NZ.WEL'' ''NZ_WEL_10_HNZ'' 1902000000000,
         FlushCall ''NZ_WEL_10_HNZ'' 0 0,
         Lookup ''NZ_WEL_10_HNZ'',
         ProcessCall ''NZ.WEL'' ''NZ_WEL_10_HNZ'' 1904000000000,
         FlushCall ''NZ_WEL_10_HNZ'' 0 2,
         Emit \<lparr>Time = 1904000000000, MMI = 2, Label = ''NZ.WEL'', Key = ''NZ_WEL_10_HNZ''\<rparr>,
         Println ''NZ.WEL NZ_WEL_10_HNZ''],
        Done)"
    unfolding f sample_run by simp
  from d T1 a g n r show ?thesis
    by blast
qed

section \<open>The run of the functions among the interleavings\<close>

text \<open>
  \<open>read_loop\<close> and \<open>file_loop\<close> run the goroutine's body at each send. That is one of the
  interleavings of \<open>step\<close>: the events, the maps and the way the process ends that the
  functions compute are those of a run of the relation from the same start.
\<close>

lemma deliver_schedule:
  assumes d: "deliver W F Q now m = (devs, x)"
    and up: "ended c = None" and wk: "worker c = Taken m"
  shows "\<exists>c'. (step W F Q)\<^sup>*\<^sup>* c c' \<and> trace c' = trace c @ devs \<and> loop c' = loop c
           \<and> channels c' = channels c \<and> rejected c' = rejected c \<and> ended c' = None
           \<and> (case x of None \<Rightarrow> worker c' = Waiting
               | Some e \<Rightarrow> \<exists>err. e = Panicked err \<and> worker c' = Panicking err)"
proof (cases "Marshal W m")
  case (Inl err)
  let ?c1 = "c\<lparr>worker := Panicking err\<rparr>"
  have "step W F Q c ?c1"
    by (rule step.marshal_failed [OF up wk Inl])
  moreover from d Inl have "devs = []" "x = Some (Panicked err)"
    by (simp_all add: deliver_def)
  ultimately show ?thesis
    using up by (intro exI [of _ ?c1]) auto
next
  case (Inr mm)
  let ?printed = "if verbose F then [Println mm] else []"
  let ?c1 = "c\<lparr>worker := Encoded mm\<rparr>"
  let ?c2 = "?c1\<lparr>worker := Shown mm, trace := trace ?c1 @ ?printed\<rparr>"
  have s1: "step W F Q c ?c1"
    by (rule step.marshalled [OF up wk Inr])
  have s2: "step W F Q ?c1 ?c2"
    by (rule step.shown) (simp_all add: up)
  have r2: "(step W F Q)\<^sup>*\<^sup>* c ?c2"
    using s1 s2 by (meson rtranclp.rtrancl_into_rtrancl rtranclp.rtrancl_refl)
  show ?thesis
  proof (cases "dryrun F")
    case True
    let ?c3 = "?c2\<lparr>worker := Waiting\<rparr>"
    have "step W F Q ?c2 ?c3"
      by (rule step.not_sent [where mm = mm]) (simp_all add: up True)
    with r2 have "(step W F Q)\<^sup>*\<^sup>* c ?c3"
      by (rule rtranclp.rtrancl_into_rtrancl)
    moreover from d Inr True have "devs = ?printed" "x = None"
      by (simp_all add: deliver_def)
    ultimately show ?thesis
      using up by (intro exI [of _ ?c3]) auto
  next
    case False
    show ?thesis
    proof (cases Q)
      case None
      let ?c3 = "?c2\<lparr>worker := Panicking ''nil pointer dereference''\<rparr>"
      have "step W F Q ?c2 ?c3"
        by (rule step.no_queue [where mm = mm]) (simp_all add: up False None)
      with r2 have "(step W F Q)\<^sup>*\<^sup>* c ?c3"
        by (rule rtranclp.rtrancl_into_rtrancl)
      moreover from d Inr False None
      have "devs = ?printed" "x = Some (Panicked ''nil pointer dereference'')"
        by (simp_all add: deliver_def)
      ultimately show ?thesis
        using up by (intro exI [of _ ?c3]) auto
    next
      case (Some q)
      show ?thesis
      proof (cases "SendMessage W now q mm")
        case None
        let ?c3 = "?c2\<lparr>worker := Waiting, trace := trace ?c2 @ [Send mm]\<rparr>"
        have "step W F Q ?c2 ?c3"
          by (rule step.sent [where mm = mm and q = q and t = now]) (simp_all add: up False Some None)
        with r2 have "(step W F Q)\<^sup>*\<^sup>* c ?c3"
          by (rule rtranclp.rtrancl_into_rtrancl)
        moreover from d Inr False Some None have "devs = ?printed @ [Send mm]" "x = None"
          by (simp_all add: deliver_def)
        ultimately show ?thesis
          using up by (intro exI [of _ ?c3]) auto
      next
        case (Some err)
        let ?c3 = "?c2\<lparr>worker := Panicking err, trace := trace ?c2 @ [Send mm]\<rparr>"
        have "step W F Q ?c2 ?c3"
          by (rule step.send_failed [where mm = mm and q = q and t = now])
            (simp_all add: up False \<open>Q = Some q\<close> Some)
        with r2 have "(step W F Q)\<^sup>*\<^sup>* c ?c3"
          by (rule rtranclp.rtrancl_into_rtrancl)
        moreover from d Inr False \<open>Q = Some q\<close> Some
        have "devs = ?printed @ [Send mm]" "x = Some (Panicked err)"
          by (simp_all add: deliver_def)
        ultimately show ?thesis
          using up by (intro exI [of _ ?c3]) auto
      qed
    qed
  qed
qed

lemma read_loop_schedule:
  assumes "read_loop W F Q rs state missing = (evs, state', missing', x)"
    and "ended c = None" and "loop c = AtRead rs fs" and "worker c = Waiting"
    and "channels c = state" and "rejected c = missing"
  shows "\<exists>c'. (step W F Q)\<^sup>*\<^sup>* c c' \<and> trace c' = trace c @ evs
           \<and> channels c' = state' \<and> rejected c' = missing' \<and> ended c' = None
           \<and> (case x of None \<Rightarrow> loop c' = AtRead [] fs \<and> worker c' = Waiting
               | Some e \<Rightarrow> loop c' = Leaving e \<or> (\<exists>err. e = Panicked err \<and> worker c' = Panicking err))"
  using assms
proof (induction rs arbitrary: c state missing evs)
  case Nil
  then show ?case
    by (intro exI [of _ c]) auto
next
  case (Cons r rs)
  show ?case
  proof (cases r)
    case (ReadError err)
    let ?c1 = "c\<lparr>loop := Leaving (Panicked err)\<rparr>"
    have "step W F Q c ?c1"
      by (rule step.read_failed [where rs = rs and fs = fs]) (use Cons.prems ReadError in simp_all)
    then show ?thesis
      using Cons.prems ReadError by (intro exI [of _ ?c1]) auto
  next
    case (Block now msr)
    obtain bevs state1 missing1 out
      where pb: "process_block W F now msr (channels c) (rejected c) = (bevs, state1, missing1, out)"
      by (cases "process_block W F now msr (channels c) (rejected c)")
    let ?c1 = "c\<lparr>loop := (case out of None \<Rightarrow> AtRead rs fs | Some m \<Rightarrow> AtSend m rs fs),
                  channels := state1, rejected := missing1, trace := trace c @ bevs\<rparr>"
    have at: "loop c = AtRead (Block now msr # rs) fs"
      using Cons.prems(3) Block by simp
    have s1: "step W F Q c ?c1"
      by (rule step.pass [OF Cons.prems(2) at pb])
    have pb': "process_block W F now msr state missing = (bevs, state1, missing1, out)"
      using pb Cons.prems(5,6) by simp
    show ?thesis
    proof (cases out)
      case None
      obtain evs2 where rl: "read_loop W F Q rs state1 missing1 = (evs2, state', missing', x)"
        and ev: "evs = bevs @ evs2"
        using Cons.prems(1) Block pb' None by (auto split: prod.splits)
      have "\<exists>c'. (step W F Q)\<^sup>*\<^sup>* ?c1 c' \<and> trace c' = trace ?c1 @ evs2
           \<and> channels c' = state' \<and> rejected c' = missing' \<and> ended c' = None
           \<and> (case x of None \<Rightarrow> loop c' = AtRead [] fs \<and> worker c' = Waiting
               | Some e \<Rightarrow> loop c' = Leaving e \<or> (\<exists>err. e = Panicked err \<and> worker c' = Panicking err))"
        by (rule Cons.IH [OF rl]) (use Cons.prems None in simp_all)
      then obtain c' where c': "(step W F Q)\<^sup>*\<^sup>* ?c1 c'" "trace c' = trace ?c1 @ evs2"
        "channels c' = state'" "rejected c' = missing'" "ended c' = None"
        "(case x of None \<Rightarrow> loop c' = AtRead [] fs \<and> worker c' = Waiting
               | Some e \<Rightarrow> loop c' = Leaving e \<or> (\<exists>err. e = Panicked err \<and> worker c' = Panicking err))"
        by blast
      from s1 c'(1) have "(step W F Q)\<^sup>*\<^sup>* c c'"
        by (rule converse_rtranclp_into_rtranclp)
      with c' ev show ?thesis
        by (intro exI [of _ c']) simp
    next
      case (Some m)
      let ?c2 = "?c1\<lparr>loop := AtRead rs fs, worker := Taken m, trace := trace ?c1 @ [Emit m]\<rparr>"
      have s2: "step W F Q ?c1 ?c2"
        by (rule step.hand_over) (use Cons.prems Some in simp_all)
      obtain devs dx where d: "deliver W F Q now m = (devs, dx)"
        by (cases "deliver W F Q now m")
      have "\<exists>c'. (step W F Q)\<^sup>*\<^sup>* ?c2 c' \<and> trace c' = trace ?c2 @ devs \<and> loop c' = loop ?c2
           \<and> channels c' = channels ?c2 \<and> rejected c' = rejected ?c2 \<and> ended c' = None
           \<and> (case dx of None \<Rightarrow> worker c' = Waiting
               | Some e \<Rightarrow> \<exists>err. e = Panicked err \<and> worker c' = Panicking err)"
        by (rule deliver_schedule [OF d]) (use Cons.prems in simp_all)
      then obtain c3 where c3: "(step W F Q)\<^sup>*\<^sup>* ?c2 c3" "trace c3 = trace ?c2 @ devs"
        "loop c3 = loop ?c2" "channels c3 = channels ?c2" "rejected c3 = rejected ?c2"
        "ended c3 = None"
        "(case dx of None \<Rightarrow> worker c3 = Waiting
               | Some e \<Rightarrow> \<exists>err. e = Panicked err \<and> worker c3 = Panicking err)"
        by blast
      have r3: "(step W F Q)\<^sup>*\<^sup>* c c3"
        using s1 s2 c3(1) by (meson converse_rtranclp_into_rtranclp)
      show ?thesis
      proof (cases dx)
        case (Some e)
        from Cons.prems(1) Block pb' \<open>out = Some m\<close> d Some
        have "evs = bevs @ Emit m # devs" "state' = state1" "missing' = missing1" "x = Some e"
          by simp_all
        with r3 c3 Some show ?thesis
          by (intro exI [of _ c3]) auto
      next
        case None
        obtain evs2 where rl: "read_loop W F Q rs state1 missing1 = (evs2, state', missing', x)"
          and ev: "evs = bevs @ Emit m # devs @ evs2"
          using Cons.prems(1) Block pb' \<open>out = Some m\<close> d None by (auto split: prod.splits)
        have "\<exists>c'. (step W F Q)\<^sup>*\<^sup>* c3 c' \<and> trace c' = trace c3 @ evs2
           \<and> channels c' = state' \<and> rejected c' = missing' \<and> ended c' = None
           \<and> (case x of None \<Rightarrow> loop c' = AtRead [] fs \<and> worker c' = Waiting
               | Some e \<Rightarrow> loop c' = Leaving e \<or> (\<exists>err. e = Panicked err \<and> worker c' = Panicking err))"
          by (rule Cons.IH [OF rl]) (use c3 None in simp_all)
        then obtain c' where c': "(step W F Q)\<^sup>*\<^sup>* c3 c'" "trace c' = trace c3 @ evs2"
          "channels c' = state'" "rejected c' = missing'" "ended c' = None"
          "(case x of None \<Rightarrow> loop c' = AtRead [] fs \<and> worker c' = Waiting
               | Some e \<Rightarrow> loop c' = Leaving e \<or> (\<exists>err. e = Panicked err \<and> worker c' = Panicking err))"
          by blast
        from r3 c'(1) have "(step W F Q)\<^sup>*\<^sup>* c c'"
          by (rule rtranclp_trans)
        with c' c3 ev show ?thesis
          by (intro exI [of _ c']) simp
      qed
    qed
  qed
qed

lemma file_loop_schedule:
  assumes "file_loop W F Q fs state missing = (evs, state', missing', x)"
    and "ended c = None" and "loop c = AtFile fs" and "worker c = Waiting"
    and "channels c = state" and "rejected c = missing"
  shows "\<exists>c'. (step W F Q)\<^sup>*\<^sup>* c c' \<and> trace c' = trace c @ evs
           \<and> channels c' = state' \<and> rejected c' = missing' \<and> ended c' = Some x"
  using assms
proof (induction fs arbitrary: c state missing evs)
  case Nil
  let ?c1 = "c\<lparr>loop := Leaving Done\<rparr>"
  let ?c2 = "?c1\<lparr>ended := Some Done\<rparr>"
  have "step W F Q c ?c1"
    by (rule step.returned) (use Nil in simp_all)
  moreover have "step W F Q ?c1 ?c2"
    by (rule step.left) (use Nil in simp_all)
  ultimately have "(step W F Q)\<^sup>*\<^sup>* c ?c2"
    by (meson rtranclp.rtrancl_into_rtrancl rtranclp.rtrancl_refl)
  with Nil show ?case
    by (intro exI [of _ ?c2]) auto
next
  case (Cons f fs)
  let ?printed = "(if verbose F then [PrintFile f] else []) @ [OpenCall f]"
  show ?case
  proof (cases "Open W f")
    case (Inl err)
    let ?c1 = "c\<lparr>loop := Leaving (Fatal err), trace := trace c @ ?printed\<rparr>"
    let ?c2 = "?c1\<lparr>ended := Some (Fatal err)\<rparr>"
    have "step W F Q c ?c1"
      by (rule step.open_failed [where fs = fs]) (use Cons.prems Inl in simp_all)
    moreover have "step W F Q ?c1 ?c2"
      by (rule step.left) (use Cons.prems in simp_all)
    ultimately have "(step W F Q)\<^sup>*\<^sup>* c ?c2"
      by (meson rtranclp.rtrancl_into_rtrancl rtranclp.rtrancl_refl)
    with Cons.prems Inl show ?thesis
      by (intro exI [of _ ?c2]) (auto simp: Let_def)
  next
    case (Inr rs)
    let ?c1 = "c\<lparr>loop := AtRead rs fs, trace := trace c @ ?printed\<rparr>"
    have s1: "step W F Q c ?c1"
      by (rule step.opened) (use Cons.prems Inr in simp_all)
    obtain evs1 state1 missing1 x1
      where rl: "read_loop W F Q rs state missing = (evs1, state1, missing1, x1)"
      by (cases "read_loop W F Q rs state missing")
    have "\<exists>c'. (step W F Q)\<^sup>*\<^sup>* ?c1 c' \<and> trace c' = trace ?c1 @ evs1
           \<and> channels c' = state1 \<and> rejected c' = missing1 \<and> ended c' = None
           \<and> (case x1 of None \<Rightarrow> loop c' = AtRead [] fs \<and> worker c' = Waiting
               | Some e \<Rightarrow> loop c' = Leaving e \<or> (\<exists>err. e = Panicked err \<and> worker c' = Panicking err))"
      by (rule read_loop_schedule [OF rl]) (use Cons.prems in simp_all)
    then obtain c2 where c2: "(step W F Q)\<^sup>*\<^sup>* ?c1 c2" "trace c2 = trace ?c1 @ evs1"
      "channels c2 = state1" "rejected c2 = missing1" "ended c2 = None"
      "(case x1 of None \<Rightarrow> loop c2 = AtRead [] fs \<and> worker c2 = Waiting
               | Some e \<Rightarrow> loop c2 = Leaving e \<or> (\<exists>err. e = Panicked err \<and> worker c2 = Panicking err))"
      by blast
    have r2: "(step W F Q)\<^sup>*\<^sup>* c c2"
      using s1 c2(1) by (rule converse_rtranclp_into_rtranclp)
    show ?thesis
    proof (cases x1)
      case (Some e)
      from Cons.prems(1) Inr rl Some
      have res: "evs = ?printed @ evs1" "state' = state1" "missing' = missing1" "x = e"
        by (simp_all add: Let_def)
      let ?c3 = "c2\<lparr>ended := Some e\<rparr>"
      from c2(6) Some have "loop c2 = Leaving e \<or> (\<exists>err. e = Panicked err \<and> worker c2 = Panicking err)"
        by simp
      then have "step W F Q c2 ?c3"
      proof
        assume "loop c2 = Leaving e"
        then show ?thesis by (rule step.left [OF c2(5)])
      next
        assume "\<exists>err. e = Panicked err \<and> worker c2 = Panicking err"
        then obtain err where "e = Panicked err" "worker c2 = Panicking err" by blast
        with step.crashed [OF c2(5), of err] show ?thesis by simp
      qed
      with r2 have "(step W F Q)\<^sup>*\<^sup>* c ?c3"
        by (rule rtranclp.rtrancl_into_rtrancl)
      with c2 res show ?thesis
        by (intro exI [of _ ?c3]) simp
    next
      case None
      obtain evs2 where fl: "file_loop W F Q fs state1 missing1 = (evs2, state', missing', x)"
        and ev: "evs = ?printed @ evs1 @ evs2"
        using Cons.prems(1) Inr rl None by (auto simp: Let_def split: prod.splits)
      let ?c3 = "c2\<lparr>loop := AtFile fs\<rparr>"
      have s3: "step W F Q c2 ?c3"
        by (rule step.end_of_file) (use c2 None in simp_all)
      have "\<exists>c'. (step W F Q)\<^sup>*\<^sup>* ?c3 c' \<and> trace c' = trace ?c3 @ evs2
           \<and> channels c' = state' \<and> rejected c' = missing' \<and> ended c' = Some x"
        by (rule Cons.IH [OF fl]) (use c2 None in simp_all)
      then obtain c' where c': "(step W F Q)\<^sup>*\<^sup>* ?c3 c'" "trace c' = trace ?c3 @ evs2"
        "channels c' = state'" "rejected c' = missing'" "ended c' = Some x"
        by blast
      have "(step W F Q)\<^sup>*\<^sup>* c c'"
        using r2 s3 c'(1) by (meson rtranclp.rtrancl_into_rtrancl rtranclp_trans)
      with c' c2 ev show ?thesis
        by (intro exI [of _ c']) simp
    qed
  qed
qed

lemma file_loop_is_a_run:
  assumes "file_loop W F Q fs state Map.empty = (evs, state', missing', x)"
  shows "\<exists>c'. (step W F Q)\<^sup>*\<^sup>* (start fs state) c' \<and> trace c' = evs
           \<and> channels c' = state' \<and> rejected c' = missing' \<and> ended c' = Some x"
  using file_loop_schedule [OF assms, of "start fs state"] by (simp add: start_def)

section \<open>Flush before delivery\<close>

lemma process_block_frame:
  assumes "process_block W F now msr state missing = (evs, state1, missing1, out)"
      and "Lookup k \<notin> set evs"
  shows "state1 k = state k \<and> missing1 k = missing k"
  using assms
  by (auto simp: process_block_def Let_def split: option.splits sum.splits prod.splits if_splits)

lemma process_block_configured:
  assumes "process_block W F now msr state missing = (evs, state1, missing1, out)"
      and "state k \<noteq> None \<longrightarrow> missing k = None"
  shows "state1 k \<noteq> None \<longrightarrow> missing1 k = None"
  using assms
  by (auto simp: process_block_def Let_def split: option.splits sum.splits prod.splits if_splits)

lemma process_block_FlushCall:
  assumes "process_block W F now msr state missing = (evs, state1, missing1, Some m)"
  shows "FlushCall (SrcName msr) 0 (MMI m) \<in> set evs"
  using assms
  by (auto simp: process_block_def Let_def split: option.splits sum.splits prod.splits if_splits)

lemma process_block_inner:
  assumes "process_block W F now msr state missing = (evs, state1, missing1, out)"
  shows "Emit m \<notin> set evs \<and> Println mm \<notin> set evs \<and> Send mm \<notin> set evs"
  using assms
  by (auto simp: process_block_def Let_def split: option.splits sum.splits prod.splits if_splits)

lemma step_running: "step W F Q c c' \<Longrightarrow> ended c = None"
  by (cases rule: step.cases) auto

lemma step_trace: "step W F Q c c' \<Longrightarrow> \<exists>evs. trace c' = trace c @ evs"
  by (cases rule: step.cases) auto

lemma step_frame:
  assumes "step W F Q c c'" and "trace c' = trace c @ evs" and "Lookup k \<notin> set evs"
  shows "channels c' k = channels c k \<and> rejected c' k = rejected c k"
  using assms
proof (cases rule: step.cases)
  case (pass now msr rs fs evs' state1 missing1 out)
  with assms process_block_frame [OF pass(4), of k] show ?thesis by simp
qed simp_all

lemma step_configured:
  assumes "step W F Q c c'" and "channels c k \<noteq> None \<longrightarrow> rejected c k = None"
  shows "channels c' k \<noteq> None \<longrightarrow> rejected c' k = None"
  using assms
proof (cases rule: step.cases)
  case (pass now msr rs fs evs' state1 missing1 out)
  with assms process_block_configured [OF pass(4), of k] show ?thesis by simp
qed simp_all

lemma step_goroutine:
  assumes "step W F Q c c'" and "loop c' = loop c \<or> worker c' \<noteq> worker c"
  shows "channels c' = channels c \<and> rejected c' = rejected c"
  using assms
  by (cases rule: step.cases) (auto split: option.splits)


lemma append_eq_mid:
  assumes "tr @ evs = pre @ e # post" and "e \<notin> set evs"
  shows "\<exists>post'. tr = pre @ e # post'"
proof -
  from assms(1) consider us where "tr = pre @ us" "us @ evs = e # post"
    | us where "tr @ us = pre" "evs = us @ e # post"
    by (auto simp: append_eq_append_conv2)
  then show ?thesis
  proof cases
    case 1
    with assms(2) show ?thesis by (cases us) auto
  next
    case 2
    with assms(2) show ?thesis by auto
  qed
qed

lemma append_eq_last:
  assumes "tr @ [e'] = pre @ e # post"
  shows "(pre = tr \<and> e = e' \<and> post = []) \<or> (\<exists>post'. tr = pre @ e # post')"
  using assms by (cases post rule: rev_cases) auto

lemma step_order:
  assumes s: "step W F Q c c'"
    and I1: "\<And>m rs fs. loop c = AtSend m rs fs \<Longrightarrow> \<exists>k. FlushCall k 0 (MMI m) \<in> set (trace c)"
    and I3: "\<And>m. worker c = Taken m \<Longrightarrow> Emit m \<in> set (trace c)"
    and I4: "\<And>mm. worker c = Encoded mm \<or> worker c = Shown mm \<Longrightarrow>
               \<exists>m. Emit m \<in> set (trace c) \<and> Marshal W m = Inr mm"
    and J2: "\<And>pre m post. trace c = pre @ Emit m # post \<Longrightarrow> \<exists>k. FlushCall k 0 (MMI m) \<in> set pre"
    and J4: "\<And>pre mm post. trace c = pre @ Send mm # post \<Longrightarrow>
               \<exists>m. Emit m \<in> set pre \<and> Marshal W m = Inr mm"
  shows "(\<forall>m rs fs. loop c' = AtSend m rs fs \<longrightarrow> (\<exists>k. FlushCall k 0 (MMI m) \<in> set (trace c')))
       \<and> (\<forall>m. worker c' = Taken m \<longrightarrow> Emit m \<in> set (trace c'))
       \<and> (\<forall>mm. worker c' = Encoded mm \<or> worker c' = Shown mm \<longrightarrow>
              (\<exists>m. Emit m \<in> set (trace c') \<and> Marshal W m = Inr mm))
       \<and> (\<forall>pre m post. trace c' = pre @ Emit m # post \<longrightarrow> (\<exists>k. FlushCall k 0 (MMI m) \<in> set pre))
       \<and> (\<forall>pre mm post. trace c' = pre @ Send mm # post \<longrightarrow>
              (\<exists>m. Emit m \<in> set pre \<and> Marshal W m = Inr mm))"
proof -
  have quiet: ?thesis
    if t: "trace c' = trace c @ evs" and ne: "\<And>m. Emit m \<notin> set evs" and ns: "\<And>mm. Send mm \<notin> set evs"
      and l: "\<And>m rs fs. loop c' = AtSend m rs fs \<Longrightarrow> \<exists>k. FlushCall k 0 (MMI m) \<in> set (trace c')"
      and w: "\<And>m. worker c' = Taken m \<Longrightarrow> Emit m \<in> set (trace c)"
      and v: "\<And>mm. worker c' = Encoded mm \<or> worker c' = Shown mm \<Longrightarrow>
               \<exists>m. Emit m \<in> set (trace c) \<and> Marshal W m = Inr mm"
    for evs
  proof (intro conjI allI impI)
    fix m rs fs assume "loop c' = AtSend m rs fs"
    then show "\<exists>k. FlushCall k 0 (MMI m) \<in> set (trace c')" by (rule l)
  next
    fix m assume "worker c' = Taken m"
    from w [OF this] show "Emit m \<in> set (trace c')" by (simp add: t)
  next
    fix mm assume "worker c' = Encoded mm \<or> worker c' = Shown mm"
    from v [OF this] show "\<exists>m. Emit m \<in> set (trace c') \<and> Marshal W m = Inr mm"
      by (auto simp: t)
  next
    fix pre m post assume "trace c' = pre @ Emit m # post"
    with t have "trace c @ evs = pre @ Emit m # post" by simp
    from append_eq_mid [OF this ne] obtain post' where "trace c = pre @ Emit m # post'" ..
    then show "\<exists>k. FlushCall k 0 (MMI m) \<in> set pre" by (rule J2)
  next
    fix pre mm post assume "trace c' = pre @ Send mm # post"
    with t have "trace c @ evs = pre @ Send mm # post" by simp
    from append_eq_mid [OF this ns] obtain post' where "trace c = pre @ Send mm # post'" ..
    then show "\<exists>m. Emit m \<in> set pre \<and> Marshal W m = Inr mm" by (rule J4)
  qed
  from s show ?thesis
  proof (cases rule: step.cases)
    case returned
    show ?thesis
      by (rule quiet [of "[]"]) (use returned I1 I3 I4 in auto)
  next
    case (open_failed f fs err)
    show ?thesis
      by (rule quiet [of "(if verbose F then [PrintFile f] else []) @ [OpenCall f]"])
        (use open_failed I1 I3 I4 in auto)
  next
    case (opened f fs rs)
    show ?thesis
      by (rule quiet [of "(if verbose F then [PrintFile f] else []) @ [OpenCall f]"])
        (use opened I1 I3 I4 in auto)
  next
    case (end_of_file fs)
    show ?thesis
      by (rule quiet [of "[]"]) (use end_of_file I1 I3 I4 in auto)
  next
    case (read_failed err rs fs)
    show ?thesis
      by (rule quiet [of "[]"]) (use read_failed I1 I3 I4 in auto)
  next
    case (pass now msr rs fs evs state1 missing1 out)
    note inner = process_block_inner [OF pass(4)]
    show ?thesis
    proof (rule quiet [of evs])
      show "trace c' = trace c @ evs" using pass by simp
      show "Emit m \<notin> set evs" for m using inner by simp
      show "Send mm \<notin> set evs" for mm using inner by simp
      show "\<exists>k. FlushCall k 0 (MMI m) \<in> set (trace c')" if "loop c' = AtSend m rs' fs'" for m rs' fs'
      proof (cases out)
        case None
        with that pass show ?thesis by simp
      next
        case (Some m')
        with that pass have "m' = m" by simp
        with Some pass(4) have "process_block W F now msr (channels c) (rejected c)
                                  = (evs, state1, missing1, Some m)" by simp
        from process_block_FlushCall [OF this] pass show ?thesis by auto
      qed
      show "Emit m \<in> set (trace c)" if "worker c' = Taken m" for m
        using that pass I3 by simp
      show "\<exists>m. Emit m \<in> set (trace c) \<and> Marshal W m = Inr mm"
        if "worker c' = Encoded mm \<or> worker c' = Shown mm" for mm
        using that pass I4 by simp
    qed
  next
    case (hand_over m rs fs)
    from I1 [OF hand_over(3)] obtain k where k: "FlushCall k 0 (MMI m) \<in> set (trace c)" ..
    show ?thesis
    proof (intro conjI allI impI)
      fix m' rs' fs' assume "loop c' = AtSend m' rs' fs'"
      with hand_over show "\<exists>k. FlushCall k 0 (MMI m') \<in> set (trace c')" by simp
    next
      fix m' assume "worker c' = Taken m'"
      with hand_over show "Emit m' \<in> set (trace c')" by simp
    next
      fix mm assume "worker c' = Encoded mm \<or> worker c' = Shown mm"
      with hand_over show "\<exists>m. Emit m \<in> set (trace c') \<and> Marshal W m = Inr mm" by simp
    next
      fix pre m' post assume "trace c' = pre @ Emit m' # post"
      with hand_over have "trace c @ [Emit m] = pre @ Emit m' # post" by simp
      from append_eq_last [OF this] show "\<exists>k. FlushCall k 0 (MMI m') \<in> set pre"
        using k J2 by auto
    next
      fix pre mm post assume "trace c' = pre @ Send mm # post"
      with hand_over have "trace c @ [Emit m] = pre @ Send mm # post" by simp
      from append_eq_last [OF this] show "\<exists>m. Emit m \<in> set pre \<and> Marshal W m = Inr mm"
        using J4 by auto
    qed
  next
    case (marshal_failed m err)
    show ?thesis
      by (rule quiet [of "[]"]) (use marshal_failed I1 I3 I4 in auto)
  next
    case (marshalled m mm)
    show ?thesis
      by (rule quiet [of "[]"]) (use marshalled I1 I3 I4 in auto)
  next
    case (shown mm)
    show ?thesis
      by (rule quiet [of "if verbose F then [Println mm] else []"]) (use shown I1 I3 I4 in auto)
  next
    case (not_sent mm)
    show ?thesis
      by (rule quiet [of "[]"]) (use not_sent I1 I3 I4 in auto)
  next
    case (no_queue mm)
    show ?thesis
      by (rule quiet [of "[]"]) (use no_queue I1 I3 I4 in auto)
  next
    case (sent mm q t)
    from I4 [of mm] sent obtain m where m: "Emit m \<in> set (trace c)" "Marshal W m = Inr mm" by auto
    show ?thesis
    proof (intro conjI allI impI)
      fix m' rs' fs' assume "loop c' = AtSend m' rs' fs'"
      with sent I1 show "\<exists>k. FlushCall k 0 (MMI m') \<in> set (trace c')" by auto
    next
      fix m' assume "worker c' = Taken m'"
      with sent show "Emit m' \<in> set (trace c')" by simp
    next
      fix mm' assume "worker c' = Encoded mm' \<or> worker c' = Shown mm'"
      with sent show "\<exists>m. Emit m \<in> set (trace c') \<and> Marshal W m = Inr mm'" by simp
    next
      fix pre m' post assume "trace c' = pre @ Emit m' # post"
      with sent have "trace c @ [Send mm] = pre @ Emit m' # post" by simp
      from append_eq_last [OF this] show "\<exists>k. FlushCall k 0 (MMI m') \<in> set pre"
        using J2 by auto
    next
      fix pre mm' post assume "trace c' = pre @ Send mm' # post"
      with sent have "trace c @ [Send mm] = pre @ Send mm' # post" by simp
      from append_eq_last [OF this] show "\<exists>m. Emit m \<in> set pre \<and> Marshal W m = Inr mm'"
        using m J4 by auto
    qed
  next
    case (send_failed mm q t err)
    from I4 [of mm] send_failed obtain m where m: "Emit m \<in> set (trace c)" "Marshal W m = Inr mm"
      by auto
    show ?thesis
    proof (intro conjI allI impI)
      fix m' rs' fs' assume "loop c' = AtSend m' rs' fs'"
      with send_failed I1 show "\<exists>k. FlushCall k 0 (MMI m') \<in> set (trace c')" by auto
    next
      fix m' assume "worker c' = Taken m'"
      with send_failed show "Emit m' \<in> set (trace c')" by simp
    next
      fix mm' assume "worker c' = Encoded mm' \<or> worker c' = Shown mm'"
      with send_failed show "\<exists>m. Emit m \<in> set (trace c') \<and> Marshal W m = Inr mm'" by simp
    next
      fix pre m' post assume "trace c' = pre @ Emit m' # post"
      with send_failed have "trace c @ [Send mm] = pre @ Emit m' # post" by simp
      from append_eq_last [OF this] show "\<exists>k. FlushCall k 0 (MMI m') \<in> set pre"
        using J2 by auto
    next
      fix pre mm' post assume "trace c' = pre @ Send mm' # post"
      with send_failed have "trace c @ [Send mm] = pre @ Send mm' # post" by simp
      from append_eq_last [OF this] show "\<exists>m. Emit m \<in> set pre \<and> Marshal W m = Inr mm'"
        using m J4 by auto
    qed
  next
    case (left x)
    show ?thesis
      by (rule quiet [of "[]"]) (use left I1 I3 I4 in auto)
  next
    case (crashed err)
    show ?thesis
      by (rule quiet [of "[]"]) (use crashed I1 I3 I4 in auto)
  qed
qed


lemma steps_trace: "(step W F Q)\<^sup>*\<^sup>* c c' \<Longrightarrow> \<exists>evs. trace c' = trace c @ evs"
proof (induction rule: rtranclp_induct)
  case base
  show ?case by simp
next
  case (step c' c'')
  from step.IH obtain e1 where "trace c' = trace c @ e1" ..
  moreover from step_trace [OF step.hyps(2)] obtain e2 where "trace c'' = trace c' @ e2" ..
  ultimately show ?case by simp
qed

lemma steps_frame:
  assumes "(step W F Q)\<^sup>*\<^sup>* c c'" and "trace c' = trace c @ evs" and "Lookup k \<notin> set evs"
  shows "channels c' k = channels c k \<and> rejected c' k = rejected c k"
  using assms
proof (induction arbitrary: evs rule: rtranclp_induct)
  case base
  show ?case by simp
next
  case (step c' c'')
  from steps_trace [OF step.hyps(1)] obtain e1 where e1: "trace c' = trace c @ e1" ..
  from step_trace [OF step.hyps(2)] obtain e2 where e2: "trace c'' = trace c' @ e2" ..
  from e1 e2 step.prems(1) have "evs = e1 @ e2" by simp
  with step.prems(2) have n: "Lookup k \<notin> set e1" "Lookup k \<notin> set e2" by simp_all
  from step.IH [OF e1 n(1)] step_frame [OF step.hyps(2) e2 n(2)] show ?case by simp
qed

lemma steps_configured:
  assumes "(step W F Q)\<^sup>*\<^sup>* c c'" and "channels c k \<noteq> None \<longrightarrow> rejected c k = None"
  shows "channels c' k \<noteq> None \<longrightarrow> rejected c' k = None"
  using assms
proof (induction rule: rtranclp_induct)
  case base
  then show ?case by simp
next
  case (step c' c'')
  from step_configured [OF step.hyps(2) step.IH [OF step.prems]] show ?case .
qed

lemma steps_order:
  assumes "(step W F Q)\<^sup>*\<^sup>* (start fs state0) c"
  shows "(\<forall>m rs fs. loop c = AtSend m rs fs \<longrightarrow> (\<exists>k. FlushCall k 0 (MMI m) \<in> set (trace c)))
       \<and> (\<forall>m. worker c = Taken m \<longrightarrow> Emit m \<in> set (trace c))
       \<and> (\<forall>mm. worker c = Encoded mm \<or> worker c = Shown mm \<longrightarrow>
              (\<exists>m. Emit m \<in> set (trace c) \<and> Marshal W m = Inr mm))
       \<and> (\<forall>pre m post. trace c = pre @ Emit m # post \<longrightarrow> (\<exists>k. FlushCall k 0 (MMI m) \<in> set pre))
       \<and> (\<forall>pre mm post. trace c = pre @ Send mm # post \<longrightarrow>
              (\<exists>m. Emit m \<in> set pre \<and> Marshal W m = Inr mm))"
  using assms
proof (induction rule: rtranclp_induct)
  case base
  show ?case by (simp add: start_def)
next
  case (step c' c'')
  show ?case
    by (rule step_order [OF step.hyps(2)]) (use step.IH in blast)+
qed

lemma step_at_send:
  assumes "step W F Q c c'" and "loop c = AtSend m rs fs"
  shows "(loop c' = AtSend m rs fs \<and> (\<exists>evs. trace c' = trace c @ evs \<and> (\<forall>m'. Emit m' \<notin> set evs)))
       \<or> trace c' = trace c @ [Emit m]"
  using assms by (cases rule: step.cases) auto

lemma steps_from_send:
  assumes "(step W F Q)\<^sup>*\<^sup>* c c'" and "loop c = AtSend m rs fs"
  shows "\<exists>evs. trace c' = trace c @ evs
           \<and> ((loop c' = AtSend m rs fs \<and> (\<forall>m'. Emit m' \<notin> set evs)) \<or> Emit m \<in> set evs)"
  using assms
proof (induction rule: rtranclp_induct)
  case base
  then show ?case by simp
next
  case (step c' c'')
  from step.IH [OF step.prems] obtain e1 where e1: "trace c' = trace c @ e1"
    and d: "(loop c' = AtSend m rs fs \<and> (\<forall>m'. Emit m' \<notin> set e1)) \<or> Emit m \<in> set e1"
    by blast
  from step_trace [OF step.hyps(2)] obtain e2 where e2: "trace c'' = trace c' @ e2" ..
  from d show ?case
  proof
    assume a: "loop c' = AtSend m rs fs \<and> (\<forall>m'. Emit m' \<notin> set e1)"
    from step_at_send [OF step.hyps(2) a [THEN conjunct1]] e1 e2 a show ?thesis
      by auto
  next
    assume "Emit m \<in> set e1"
    with e1 e2 show ?thesis by auto
  qed
qed

lemma step_pass:
  assumes "step W F Q c c'" and "loop c = AtRead (Block now msr # rs) fs" and "loop c' \<noteq> loop c"
    and "process_block W F now msr (channels c) (rejected c) = (evs, state1, missing1, out)"
  shows "c' = c\<lparr>loop := (case out of None \<Rightarrow> AtRead rs fs | Some m \<Rightarrow> AtSend m rs fs),
                channels := state1, rejected := missing1, trace := trace c @ evs\<rparr>"
  using assms by (cases rule: step.cases) auto

lemma step_to: "step W F Q c c'' \<Longrightarrow> c'' = c' \<Longrightarrow> step W F Q c c'"
  by simp

text \<open>
  C8. Take a run of the loop and the goroutine, in any interleaving, that has come to a
  pass of the read loop whose block gets a message from \<^verbatim>\<open>ProcessSamples\<close> and true from
  \<^verbatim>\<open>Flush\<close>, which leaves the stream \<open>stream2\<close>. The pass is one move of the loop and the
  only one it can make there: it stores \<open>stream2\<close> for the channel and brings the loop to
  the send on \<^verbatim>\<open>result\<close>, the message not yet handed over. From there on, in every
  interleaving and whatever \<^verbatim>\<open>json.Marshal\<close> and the queue answer: the loop stands at the
  send until the message is handed over; in the trace every \<open>Send\<close> comes after the
  \<open>Emit\<close> of a message with that text, and every \<open>Emit\<close> after a \<open>FlushCall\<close> with its
  level, so a delivery is attempted only after the \<^verbatim>\<open>Flush\<close> that decided it has left its
  stream in the map; no move of the goroutine (one that changes where it stands or
  leaves the loop where it is), a failed delivery among them, changes the streams or the
  rejected keys; and once the process has ended nothing moves. Until the
  next pass that looks the channel up, the channel holds \<open>stream2\<close>. That pass hands
  \<open>stream2\<close> to \<^verbatim>\<open>ProcessSamples\<close> and sends or not as \<^verbatim>\<open>Flush\<close> says on the stream this
  leaves. \<^verbatim>\<open>Flush\<close> and \<^verbatim>\<open>ProcessSamples\<close> are parameters: when \<^verbatim>\<open>Flush\<close> records the level
  it accepts and refuses the level recorded, and \<^verbatim>\<open>ProcessSamples\<close> keeps the record, a
  next block of the same level does not reach the send.
\<close>

theorem flush_transition_kept:
  assumes run: "(step W F Q)\<^sup>*\<^sup>* (start fs0 state0) c"
      and at: "loop c = AtRead (Block now msr # rs) fs"
      and up: "ended c = None"
      and st: "channels c (SrcName msr) = Some stream"
      and ds: "DataSamples msr = Inr samples"
      and ps: "ProcessSamples W now stream (channel_label msr) (SrcName msr) (Starttime msr) samples
                 = (Inr message, stream1)"
      and fl: "Flush W now stream1 0 (MMI message) = (True, stream2)"
      and m: "m = (if replay F then message\<lparr>Time := Truncate now Second\<rparr> else message)"
      and c1: "c1 = c\<lparr>loop := AtSend m rs fs,
                       channels := (channels c)(SrcName msr \<mapsto> stream2),
                       trace := trace c @
                         [Lookup (SrcName msr),
                          ProcessCall (channel_label msr) (SrcName msr) (Starttime msr),
                          FlushCall (SrcName msr) 0 (MMI message)]\<rparr>"
  shows "step W F Q c c1
       \<and> (step W F Q c c' \<longrightarrow> loop c' \<noteq> loop c \<longrightarrow> c' = c1)
       \<and> ((step W F Q)\<^sup>*\<^sup>* c1 c2 \<longrightarrow> trace c2 = trace c1 @ evs \<longrightarrow>
            ((loop c2 = AtSend m rs fs \<and> (\<forall>m'. Emit m' \<notin> set evs)) \<or> Emit m \<in> set evs)
          \<and> (\<forall>pre mm post. trace c2 = pre @ Send mm # post \<longrightarrow>
                (\<exists>m'. Emit m' \<in> set pre \<and> Marshal W m' = Inr mm))
          \<and> (\<forall>pre m' post. trace c2 = pre @ Emit m' # post \<longrightarrow>
                (\<exists>k. FlushCall k 0 (MMI m') \<in> set pre))
          \<and> (step W F Q c2 c3 \<longrightarrow> loop c3 = loop c2 \<or> worker c3 \<noteq> worker c2 \<longrightarrow>
                channels c3 = channels c2 \<and> rejected c3 = rejected c2)
          \<and> (ended c2 \<noteq> None \<longrightarrow> \<not> step W F Q c2 c3)
          \<and> (Lookup (SrcName msr) \<notin> set evs \<longrightarrow>
               channels c2 (SrcName msr) = Some stream2
             \<and> (loop c2 = AtRead (Block now2 msr2 # rs2) fs2 \<longrightarrow> SrcName msr2 = SrcName msr \<longrightarrow>
                DataSamples msr2 = Inr samples2 \<longrightarrow>
                ProcessSamples W now2 stream2 (channel_label msr2) (SrcName msr2) (Starttime msr2)
                  samples2 = (Inr message2, stream3) \<longrightarrow>
                step W F Q c2 c3 \<longrightarrow> loop c3 \<noteq> loop c2 \<longrightarrow>
                  trace c3 = trace c2 @
                    [Lookup (SrcName msr2),
                     ProcessCall (channel_label msr2) (SrcName msr2) (Starttime msr2),
                     FlushCall (SrcName msr2) 0 (MMI message2)]
                \<and> channels c3
                    = (channels c2)(SrcName msr2 \<mapsto> snd (Flush W now2 stream3 0 (MMI message2)))
                \<and> (loop c3 = AtRead rs2 fs2 \<longleftrightarrow> \<not> fst (Flush W now2 stream3 0 (MMI message2)))
                \<and> ((\<forall>t s d l s'. Flush W t s d l = (True, s') \<longrightarrow> lastEmitted s' = Some l) \<longrightarrow>
                   (\<forall>t s a b u xs r s'. ProcessSamples W t s a b u xs = (r, s')
                      \<longrightarrow> lastEmitted s' = lastEmitted s) \<longrightarrow>
                   (\<forall>t s d l. lastEmitted s = Some l \<longrightarrow> \<not> fst (Flush W t s d l)) \<longrightarrow>
                   MMI message2 = MMI message \<longrightarrow> loop c3 = AtRead rs2 fs2))))"
proof -
  let ?k = "SrcName msr"
  let ?bevs = "[Lookup ?k, ProcessCall (channel_label msr) ?k (Starttime msr),
                FlushCall ?k 0 (MMI message)]"
  have conf0: "channels (start fs0 state0) ?k \<noteq> None \<longrightarrow> rejected (start fs0 state0) ?k = None"
    by (simp add: start_def)
  have rj: "rejected c ?k = None"
    using steps_configured [OF run conf0] st by simp
  have pb: "process_block W F now msr (channels c) (rejected c)
              = (?bevs, (channels c)(?k \<mapsto> stream2), rejected c, Some m)"
    using process_block_processed [where missing = "rejected c" and state = "channels c"
        and msr = msr and F = F, OF rj st ds ps] fl m
    by simp
  have eq: "c1 = c\<lparr>loop := (case Some m of None \<Rightarrow> AtRead rs fs | Some m \<Rightarrow> AtSend m rs fs),
                   channels := (channels c)(?k \<mapsto> stream2), rejected := rejected c,
                   trace := trace c @ ?bevs\<rparr>"
    using c1 by simp
  have s1: "step W F Q c c1"
    unfolding eq by (rule step.pass [OF up at pb])
  have only: "c' = c1" if "step W F Q c c'" and "loop c' \<noteq> loop c"
    using step_pass [OF that(1) at that(2) pb] eq by simp
  have rest: "((loop c2 = AtSend m rs fs \<and> (\<forall>m'. Emit m' \<notin> set evs)) \<or> Emit m \<in> set evs)
          \<and> (\<forall>pre mm post. trace c2 = pre @ Send mm # post \<longrightarrow>
                (\<exists>m'. Emit m' \<in> set pre \<and> Marshal W m' = Inr mm))
          \<and> (\<forall>pre m' post. trace c2 = pre @ Emit m' # post \<longrightarrow>
                (\<exists>k. FlushCall k 0 (MMI m') \<in> set pre))
          \<and> (step W F Q c2 c3 \<longrightarrow> loop c3 = loop c2 \<or> worker c3 \<noteq> worker c2 \<longrightarrow>
                channels c3 = channels c2 \<and> rejected c3 = rejected c2)
          \<and> (ended c2 \<noteq> None \<longrightarrow> \<not> step W F Q c2 c3)
          \<and> (Lookup (SrcName msr) \<notin> set evs \<longrightarrow>
               channels c2 (SrcName msr) = Some stream2
             \<and> (loop c2 = AtRead (Block now2 msr2 # rs2) fs2 \<longrightarrow> SrcName msr2 = SrcName msr \<longrightarrow>
                DataSamples msr2 = Inr samples2 \<longrightarrow>
                ProcessSamples W now2 stream2 (channel_label msr2) (SrcName msr2) (Starttime msr2)
                  samples2 = (Inr message2, stream3) \<longrightarrow>
                step W F Q c2 c3 \<longrightarrow> loop c3 \<noteq> loop c2 \<longrightarrow>
                  trace c3 = trace c2 @
                    [Lookup (SrcName msr2),
                     ProcessCall (channel_label msr2) (SrcName msr2) (Starttime msr2),
                     FlushCall (SrcName msr2) 0 (MMI message2)]
                \<and> channels c3
                    = (channels c2)(SrcName msr2 \<mapsto> snd (Flush W now2 stream3 0 (MMI message2)))
                \<and> (loop c3 = AtRead rs2 fs2 \<longleftrightarrow> \<not> fst (Flush W now2 stream3 0 (MMI message2)))
                \<and> ((\<forall>t s d l s'. Flush W t s d l = (True, s') \<longrightarrow> lastEmitted s' = Some l) \<longrightarrow>
                   (\<forall>t s a b u xs r s'. ProcessSamples W t s a b u xs = (r, s')
                      \<longrightarrow> lastEmitted s' = lastEmitted s) \<longrightarrow>
                   (\<forall>t s d l. lastEmitted s = Some l \<longrightarrow> \<not> fst (Flush W t s d l)) \<longrightarrow>
                   MMI message2 = MMI message \<longrightarrow> loop c3 = AtRead rs2 fs2)))"
    if r12: "(step W F Q)\<^sup>*\<^sup>* c1 c2" and t12: "trace c2 = trace c1 @ evs"
  proof -
    have l1: "loop c1 = AtSend m rs fs"
      using c1 by simp
    from steps_from_send [OF r12 l1] t12
    have x1: "(loop c2 = AtSend m rs fs \<and> (\<forall>m'. Emit m' \<notin> set evs)) \<or> Emit m \<in> set evs"
      by auto
    have r02: "(step W F Q)\<^sup>*\<^sup>* (start fs0 state0) c2"
      using run s1 r12 by (meson rtranclp.rtrancl_into_rtrancl rtranclp_trans)
    note ord = steps_order [OF r02]
    have x2: "\<forall>pre mm post. trace c2 = pre @ Send mm # post \<longrightarrow>
                (\<exists>m'. Emit m' \<in> set pre \<and> Marshal W m' = Inr mm)"
      using ord by blast
    have x3: "\<forall>pre m' post. trace c2 = pre @ Emit m' # post \<longrightarrow>
                (\<exists>k. FlushCall k 0 (MMI m') \<in> set pre)"
      using ord by blast
    have x4: "step W F Q c2 c3 \<longrightarrow> loop c3 = loop c2 \<or> worker c3 \<noteq> worker c2 \<longrightarrow>
                channels c3 = channels c2 \<and> rejected c3 = rejected c2"
      using step_goroutine [of W F Q c2 c3] by auto
    have x5: "ended c2 \<noteq> None \<longrightarrow> \<not> step W F Q c2 c3"
      using step_running [of W F Q c2 c3] by auto
    have x6: "channels c2 ?k = Some stream2" if nl: "Lookup ?k \<notin> set evs"
      using steps_frame [OF r12 t12 nl] c1 by simp
    have rj2: "rejected c2 ?k = None" if nl: "Lookup ?k \<notin> set evs"
      using steps_configured [OF r02 conf0] x6 [OF nl] by simp
    have x7: "trace c3 = trace c2 @
                    [Lookup (SrcName msr2),
                     ProcessCall (channel_label msr2) (SrcName msr2) (Starttime msr2),
                     FlushCall (SrcName msr2) 0 (MMI message2)]
                \<and> channels c3
                    = (channels c2)(SrcName msr2 \<mapsto> snd (Flush W now2 stream3 0 (MMI message2)))
                \<and> (loop c3 = AtRead rs2 fs2 \<longleftrightarrow> \<not> fst (Flush W now2 stream3 0 (MMI message2)))
                \<and> ((\<forall>t s d l s'. Flush W t s d l = (True, s') \<longrightarrow> lastEmitted s' = Some l) \<longrightarrow>
                   (\<forall>t s a b u xs r s'. ProcessSamples W t s a b u xs = (r, s')
                      \<longrightarrow> lastEmitted s' = lastEmitted s) \<longrightarrow>
                   (\<forall>t s d l. lastEmitted s = Some l \<longrightarrow> \<not> fst (Flush W t s d l)) \<longrightarrow>
                   MMI message2 = MMI message \<longrightarrow> loop c3 = AtRead rs2 fs2)"
      if nl: "Lookup ?k \<notin> set evs"
        and at2: "loop c2 = AtRead (Block now2 msr2 # rs2) fs2" and k2: "SrcName msr2 = ?k"
        and ds2: "DataSamples msr2 = Inr samples2"
        and ps2: "ProcessSamples W now2 stream2 (channel_label msr2) (SrcName msr2) (Starttime msr2)
                  samples2 = (Inr message2, stream3)"
        and s23: "step W F Q c2 c3" and mv: "loop c3 \<noteq> loop c2"
    proof -
      let ?f = "Flush W now2 stream3 0 (MMI message2)"
      have h1: "rejected c2 (SrcName msr2) = None"
        using rj2 [OF nl] k2 by simp
      have h2: "channels c2 (SrcName msr2) = Some stream2"
        using x6 [OF nl] k2 by simp
      note pb2 = process_block_processed [where missing = "rejected c2" and state = "channels c2"
          and msr = msr2 and F = F, OF h1 h2 ds2 ps2]
      note c3 = step_pass [OF s23 at2 mv pb2]
      have a: "trace c3 = trace c2 @
                    [Lookup (SrcName msr2),
                     ProcessCall (channel_label msr2) (SrcName msr2) (Starttime msr2),
                     FlushCall (SrcName msr2) 0 (MMI message2)]"
        by (subst c3) simp
      have b: "channels c3 = (channels c2)(SrcName msr2 \<mapsto> snd ?f)"
        by (subst c3) simp
      have l3: "loop c3 = (if fst ?f
                  then AtSend (if replay F then message2\<lparr>Time := Truncate now2 Second\<rparr> else message2) rs2 fs2
                  else AtRead rs2 fs2)"
        by (subst c3) simp
      have d: "loop c3 = AtRead rs2 fs2 \<longleftrightarrow> \<not> fst ?f"
        using l3 by simp
      have e: "loop c3 = AtRead rs2 fs2"
        if f1: "\<forall>t s d l s'. Flush W t s d l = (True, s') \<longrightarrow> lastEmitted s' = Some l"
          and f2: "\<forall>t s a b u xs r s'. ProcessSamples W t s a b u xs = (r, s')
                      \<longrightarrow> lastEmitted s' = lastEmitted s"
          and f3: "\<forall>t s d l. lastEmitted s = Some l \<longrightarrow> \<not> fst (Flush W t s d l)"
          and mm: "MMI message2 = MMI message"
      proof -
        from f1 fl have "lastEmitted stream2 = Some (MMI message)" by blast
        moreover from f2 ps2 have "lastEmitted stream3 = lastEmitted stream2" by blast
        ultimately have "lastEmitted stream3 = Some (MMI message2)" using mm by simp
        with f3 have "\<not> fst ?f" by blast
        with d show ?thesis by simp
      qed
      from a b d e show ?thesis by blast
    qed
    from x1 x2 x3 x4 x5 x6 x7 show ?thesis
      by blast
  qed
  from s1 only rest show ?thesis
    by blast
qed

theorem flush_transition_kept_witness:
  "(step failing_world sample_flags (Some ()))\<^sup>*\<^sup>* (start [''a.mseed''] ready_streams) at_first_block
   \<and> step failing_world sample_flags (Some ()) at_first_block flushed
   \<and> (step failing_world sample_flags (Some ()))\<^sup>*\<^sup>* flushed delivery_failed
   \<and> worker delivery_failed = Panicking ''queue unavailable''
   \<and> channels delivery_failed ''NZ_WEL_10_HNZ'' = Some \<lparr>armedAt = 1600 * Second, lastLevel = Some 0\<rparr>
   \<and> step failing_world sample_flags (Some ()) delivery_failed next_pass
   \<and> loop next_pass = AtRead (drop 3 sample_reads) []
   \<and> trace next_pass =
       [PrintFile ''a.mseed'', OpenCall ''a.mseed'',
        Lookup ''NZ_WEL_10_HNZ'', ProcessCall ''NZ.WEL'' ''NZ_WEL_10_HNZ'' (1900 * Second),
        FlushCall ''NZ_WEL_10_HNZ'' 0 0,
        Emit sample_notice, Println ''NZ.WEL NZ_WEL_10_HNZ'', Send ''NZ.WEL NZ_WEL_10_HNZ'',
        Lookup ''NZ_XXX_10_HNZ'', LogMissing ''NZ_XXX_10_HNZ'',
        Lookup ''NZ_WEL_10_HNZ'', ProcessCall ''NZ.WEL'' ''NZ_WEL_10_HNZ'' (1902 * Second),
        FlushCall ''NZ_WEL_10_HNZ'' 0 0]"
proof -
  let ?W = failing_world
  let ?F = sample_flags
  let ?Q = "Some ()"
  let ?b1 = "sample_block ''WEL'' ''NZ_WEL_10_HNZ'' (1900 * Second) [3, -50, 20]"
  let ?b2 = "sample_block ''XXX'' ''NZ_XXX_10_HNZ'' (1901 * Second) [1]"
  let ?b3 = "sample_block ''WEL'' ''NZ_WEL_10_HNZ'' (1902 * Second) [50, 1]"
  let ?s0 = "\<lparr>armedAt = 1600 * Second, lastLevel = None\<rparr>"
  let ?s2 = "\<lparr>armedAt = 1600 * Second, lastLevel = Some (0 :: int)\<rparr>"
  let ?n2 = "\<lparr>Time = 1902 * Second, MMI = 0 :: int, Label = ''NZ.WEL'', Key = ''NZ_WEL_10_HNZ''\<rparr>"
  let ?mm = "''NZ.WEL NZ_WEL_10_HNZ''"
  let ?st = "start [''a.mseed''] ready_streams :: (Channel, int list, int, unit Notice_ext) process"
  let ?d1 = "flushed\<lparr>loop := AtRead (drop 1 sample_reads) [], worker := Taken sample_notice,
                     trace := trace flushed @ [Emit sample_notice]\<rparr>"
  let ?d2 = "?d1\<lparr>worker := Encoded ?mm\<rparr>"
  let ?d3 = "?d2\<lparr>worker := Shown ?mm, trace := trace ?d2 @ [Println ?mm]\<rparr>"
  let ?d4 = "?d3\<lparr>worker := Panicking ''queue unavailable'', trace := trace ?d3 @ [Send ?mm]\<rparr>"
  let ?evs = "[Emit sample_notice, Println ?mm, Send ?mm, Lookup ''NZ_XXX_10_HNZ'',
               LogMissing ''NZ_XXX_10_HNZ'']"
  have run: "(step ?W ?F ?Q)\<^sup>*\<^sup>* ?st at_first_block"
    by (rule r_into_rtranclp, rule step_to [OF step.opened [where f = "''a.mseed''" and fs = "[]"
          and rs = sample_reads]])
      (simp_all add: start_def failing_world_def sample_world_def at_first_block_def sample_flags_def)
  have at: "loop at_first_block = AtRead (Block (2000 * Second + 7) ?b1 # drop 1 sample_reads) []"
    by (simp add: at_first_block_def sample_reads_def)
  have up: "ended at_first_block = None"
    by (simp add: at_first_block_def)
  have st: "channels at_first_block (SrcName ?b1) = Some ?s0"
    by (simp add: at_first_block_def ready_streams_def sample_block_def)
  have ds: "DataSamples ?b1 = Inr [3, -50, 20]"
    by (simp add: sample_block_def)
  have ps: "ProcessSamples ?W (2000 * Second + 7) ?s0 (channel_label ?b1) (SrcName ?b1) (Starttime ?b1)
              [3, -50, 20] = (Inr sample_notice, ?s0)"
    by (simp add: failing_world_def sample_world_def sample_block_def sample_level_def
        sample_notice_def TrimRight_def trimRightByte.simps NUL_def Replace_def replace_def
        NewReplacer_def)
  have fl: "Flush ?W (2000 * Second + 7) ?s0 0 (MMI sample_notice) = (True, ?s2)"
    by (simp add: failing_world_def sample_world_def sample_notice_def Second_def)
  have m: "sample_notice
             = (if replay ?F then sample_notice\<lparr>Time := Truncate (2000 * Second + 7) Second\<rparr>
                else sample_notice)"
    by (simp add: sample_flags_def)
  have c1: "flushed = at_first_block
              \<lparr>loop := AtSend sample_notice (drop 1 sample_reads) [],
               channels := (channels at_first_block)(SrcName ?b1 \<mapsto> ?s2),
               trace := trace at_first_block @
                 [Lookup (SrcName ?b1), ProcessCall (channel_label ?b1) (SrcName ?b1) (Starttime ?b1),
                  FlushCall (SrcName ?b1) 0 (MMI sample_notice)]\<rparr>"
    by (simp add: flushed_def at_first_block_def sample_block_def sample_notice_def TrimRight_def trimRightByte.simps NUL_def Replace_def replace_def
        NewReplacer_def)
  have e1: "step ?W ?F ?Q flushed ?d1"
    by (rule step_to [OF step.hand_over [where m = sample_notice and rs = "drop 1 sample_reads"
          and fs = "[]"]])
      (simp_all add: flushed_def at_first_block_def)
  have e2: "step ?W ?F ?Q ?d1 ?d2"
    by (rule step_to [OF step.marshalled [where m = sample_notice and mm = ?mm]])
      (simp_all add: flushed_def at_first_block_def failing_world_def sample_world_def
        sample_notice_def)
  have e3: "step ?W ?F ?Q ?d2 ?d3"
    by (rule step_to [OF step.shown [where mm = ?mm]])
      (simp_all add: flushed_def at_first_block_def sample_flags_def)
  have e4: "step ?W ?F ?Q ?d3 ?d4"
    by (rule step_to [OF step.send_failed [where mm = ?mm and q = "()" and t = 0
          and err = "''queue unavailable''"]])
      (simp_all add: flushed_def at_first_block_def sample_flags_def failing_world_def
        sample_world_def)
  have e5: "step ?W ?F ?Q ?d4 delivery_failed"
    by (rule step_to [OF step.pass [where now = "2001 * Second + 7" and msr = ?b2
          and rs = "drop 2 sample_reads" and fs = "[]"
          and evs = "[Lookup ''NZ_XXX_10_HNZ'', LogMissing ''NZ_XXX_10_HNZ'']"
          and ?state1.0 = "ready_streams(''NZ_WEL_10_HNZ'' \<mapsto> ?s2)"
          and ?missing1.0 = "[''NZ_XXX_10_HNZ'' \<mapsto> ''NZ_XXX_10_HNZ'']" and out = None]])
      (simp_all add: delivery_failed_def flushed_def at_first_block_def sample_reads_def
        sample_block_def process_block_def Let_def ready_streams_def)
  have r12: "(step ?W ?F ?Q)\<^sup>*\<^sup>* flushed delivery_failed"
    using e1 e2 e3 e4 e5
    by (meson rtranclp.rtrancl_into_rtrancl rtranclp.rtrancl_refl)
  have t12: "trace delivery_failed = trace flushed @ ?evs"
    by (simp add: delivery_failed_def)
  have nl: "Lookup (SrcName ?b1) \<notin> set ?evs"
    by (simp add: sample_block_def)
  have at2: "loop delivery_failed = AtRead (Block (2002 * Second + 7) ?b3 # drop 3 sample_reads) []"
    by (simp add: delivery_failed_def sample_reads_def)
  have k2: "SrcName ?b3 = SrcName ?b1"
    by (simp add: sample_block_def)
  have ds2: "DataSamples ?b3 = Inr [50, 1]"
    by (simp add: sample_block_def)
  have ps2: "ProcessSamples ?W (2002 * Second + 7) ?s2 (channel_label ?b3) (SrcName ?b3) (Starttime ?b3)
              [50, 1] = (Inr ?n2, ?s2)"
    by (simp add: failing_world_def sample_world_def sample_block_def sample_level_def TrimRight_def trimRightByte.simps NUL_def Replace_def replace_def
        NewReplacer_def)
  have s23: "step ?W ?F ?Q delivery_failed next_pass"
    by (rule step_to [OF step.pass [where now = "2002 * Second + 7" and msr = ?b3
          and rs = "drop 3 sample_reads" and fs = "[]"
          and evs = "[Lookup ''NZ_WEL_10_HNZ'', ProcessCall ''NZ.WEL'' ''NZ_WEL_10_HNZ'' (1902 * Second),
                      FlushCall ''NZ_WEL_10_HNZ'' 0 0]"
          and ?state1.0 = "ready_streams(''NZ_WEL_10_HNZ'' \<mapsto> ?s2)"
          and ?missing1.0 = "[''NZ_XXX_10_HNZ'' \<mapsto> ''NZ_XXX_10_HNZ'']" and out = None]])
      (simp_all add: next_pass_def delivery_failed_def flushed_def at_first_block_def sample_reads_def
        sample_block_def process_block_def Let_def ready_streams_def failing_world_def
        sample_world_def sample_level_def TrimRight_def trimRightByte.simps NUL_def Replace_def replace_def
        NewReplacer_def)
  have mv: "loop next_pass \<noteq> loop delivery_failed"
    by (simp add: next_pass_def delivery_failed_def sample_reads_def)
  have f1: "\<forall>t s d l s'. Flush ?W t s d l = (True, s') \<longrightarrow> lastLevel s' = Some l"
    by (auto simp: failing_world_def sample_world_def split: if_splits)
  have f2: "\<forall>t s a b u xs r s'. ProcessSamples ?W t s a b u xs = (r, s') \<longrightarrow> lastLevel s' = lastLevel s"
    by (auto simp: failing_world_def sample_world_def split: if_splits)
  have f3: "\<forall>t s d l. lastLevel s = Some l \<longrightarrow> \<not> fst (Flush ?W t s d l)"
    by (simp add: failing_world_def sample_world_def)
  have mm: "MMI ?n2 = MMI sample_notice"
    by (simp add: sample_notice_def)
  note T = flush_transition_kept [where W = ?W and F = ?F and Q = ?Q and c = at_first_block
      and ?c1.0 = flushed and ?c2.0 = delivery_failed and ?c3.0 = next_pass and evs = ?evs
      and msr = ?b1 and m = sample_notice and message = sample_notice
      and ?msr2.0 = ?b3 and ?now2.0 = "2002 * Second + 7" and ?rs2.0 = "drop 3 sample_reads"
      and ?fs2.0 = "[]" and ?samples2.0 = "[50, 1]" and ?message2.0 = ?n2 and ?stream3.0 = ?s2
      and lastEmitted = lastLevel,
      OF run at up st ds ps fl m c1]
  note A = T [THEN conjunct1]
  note B = T [THEN conjunct2, THEN conjunct2, THEN mp, OF r12, THEN mp, OF t12]
  note C = B [THEN conjunct2, THEN conjunct2, THEN conjunct2, THEN conjunct2, THEN conjunct2,
      THEN mp, OF nl]
  note D = C [THEN conjunct2, THEN mp, OF at2, THEN mp, OF k2, THEN mp, OF ds2, THEN mp, OF ps2,
      THEN mp, OF s23, THEN mp, OF mv]
  note E = D [THEN conjunct2, THEN conjunct2, THEN conjunct2, THEN mp, OF f1, THEN mp, OF f2,
      THEN mp, OF f3, THEN mp, OF mm]
  have k: "SrcName ?b1 = ''NZ_WEL_10_HNZ''"
    by (simp add: sample_block_def)
  have w: "worker delivery_failed = Panicking ''queue unavailable''"
    by (simp add: delivery_failed_def)
  have tr: "trace next_pass =
       [PrintFile ''a.mseed'', OpenCall ''a.mseed'',
        Lookup ''NZ_WEL_10_HNZ'', ProcessCall ''NZ.WEL'' ''NZ_WEL_10_HNZ'' (1900 * Second),
        FlushCall ''NZ_WEL_10_HNZ'' 0 0,
        Emit sample_notice, Println ''NZ.WEL NZ_WEL_10_HNZ'', Send ''NZ.WEL NZ_WEL_10_HNZ'',
        Lookup ''NZ_XXX_10_HNZ'', LogMissing ''NZ_XXX_10_HNZ'',
        Lookup ''NZ_WEL_10_HNZ'', ProcessCall ''NZ.WEL'' ''NZ_WEL_10_HNZ'' (1902 * Second),
        FlushCall ''NZ_WEL_10_HNZ'' 0 0]"
    by (simp add: next_pass_def delivery_failed_def flushed_def at_first_block_def)
  show ?thesis
    apply (intro conjI)
           apply (rule run)
          apply (rule A)
         apply (rule r12)
        apply (rule w)
       apply (rule C [THEN conjunct1, unfolded k])
      apply (rule s23)
     apply (rule E)
    apply (rule tr)
    done
qed

section \<open>Configuration errors\<close>

lemma LoadConfig_fails:
  assumes "decode source = None
         \<or> (\<exists>entries. decode source = Some entries
              \<and> (\<not> distinct (map fst entries)
                 \<or> (\<exists>k c. (k, c) \<in> set entries \<and> \<not> nondecreasing (thresholds c))))"
  shows "LoadConfig decode source = Inl ConfigError"
  using assms by (auto simp: LoadConfig_def list_all_iff)

lemma LoadConfig_validated:
  assumes "LoadConfig decode source = Inr m" and "m k = Some c"
  shows "nondecreasing (thresholds c)"
proof -
  from assms(1) obtain entries where e: "decode source = Some entries"
    "list_all (\<lambda>(k, c). nondecreasing (thresholds c)) entries" "m = map_of entries"
    by (auto simp: LoadConfig_def split: option.splits if_splits)
  from e(3) assms(2) have "(k, c) \<in> set entries"
    by (auto dest: map_of_SomeD)
  with e(2) show ?thesis
    by (auto simp: list_all_iff)
qed

lemma init_calls_empty:
  assumes "\<And>k p l. InitCall k p l \<notin> set evs"
  shows "init_calls evs = []"
proof (cases "init_calls evs")
  case Nil
  then show ?thesis .
next
  case (Cons c cs)
  obtain k p l where "c = (k, p, l)"
    by (cases c)
  with Cons have "(k, p, l) \<in> set (init_calls evs)"
    by simp
  then have "InitCall k p l \<in> set evs"
    by (simp only: set_init_calls)
  with assms show ?thesis
    by blast
qed

lemma main_fatal_no_loop:
  assumes "LoadStreams W (config F) = Inl err" and "e \<in> set (fst (main W F))"
  shows "\<not> loop_event e \<and> (\<forall>k p l. e \<noteq> InitCall k p l)"
proof (cases rule: main_cases [of W F])
  case no_region
  with assms show ?thesis by simp
next
  case no_queue
  with assms show ?thesis by simp
next
  case (no_connect evs0 err')
  with assms connect_events [OF no_connect(1), of e] show ?thesis by auto
next
  case (no_config evs0 Q err')
  with assms connect_events [OF no_config(1), of e] show ?thesis by auto
next
  case (no_init evs0 Q state evs1 x)
  with assms show ?thesis by simp
next
  case (run evs0 Q state evs1 state1 evs2 state2 missing2 x)
  with assms show ?thesis by simp
qed

lemma main_fatal_exit:
  assumes "LoadStreams W (config F) = Inl err"
  shows "\<exists>msg. snd (main W F) = Fatal msg"
proof (cases rule: main_cases [of W F])
  case no_region
  then show ?thesis by simp
next
  case no_queue
  then show ?thesis by simp
next
  case (no_connect evs0 err')
  then show ?thesis by simp
next
  case (no_config evs0 Q err')
  then show ?thesis by simp
next
  case (no_init evs0 Q state evs1 x)
  with assms show ?thesis by simp
next
  case (run evs0 Q state evs1 state1 evs2 state2 missing2 x)
  with assms show ?thesis by simp
qed

text \<open>
  C4. Let \<^verbatim>\<open>LoadStreams\<close> be the loader of the specification. On malformed input, on a
  key written twice and on a threshold table that is not non-decreasing the loader
  fails with \<open>ConfigError\<close>, and the run of \<^verbatim>\<open>main\<close> ends fatally: no \<^verbatim>\<open>Init\<close> call, no
  event of the file loop, and, when the run got past the queue, \<^verbatim>\<open>log.Fatal\<close> of
  \<open>ConfigError\<close> right after the call of the loader. When the loader returns, every
  stream of the map was made from a configuration whose table is non-decreasing.
\<close>

theorem config_error_is_fatal:
  assumes "LoadStreams W (config F) = LoadStreams_spec decode mk source"
  shows "((decode source = None
           \<or> (\<exists>entries. decode source = Some entries
                \<and> (\<not> distinct (map fst entries)
                   \<or> (\<exists>k c. (k, c) \<in> set entries \<and> \<not> nondecreasing (thresholds c))))) \<longrightarrow>
            LoadConfig decode source = Inl ConfigError
          \<and> (\<exists>msg. snd (main W F) = Fatal msg)
          \<and> filter loop_event (fst (main W F)) = []
          \<and> init_calls (fst (main W F)) = []
          \<and> (region_of W F \<noteq> [] \<longrightarrow> queue_of W F \<noteq> [] \<longrightarrow>
              connect W F (region_of W F) (queue_of W F) = (evs0, Inr Q) \<longrightarrow>
                main W F = (evs0 @ [LoadStreamsCall (config F)], Fatal ConfigError)))
       \<and> (LoadStreams W (config F) = Inr state \<longrightarrow> state k = Some stream \<longrightarrow>
            (\<exists>c. stream = mk c \<and> nondecreasing (thresholds c)))"
proof (intro conjI impI)
  assume bad: "decode source = None
           \<or> (\<exists>entries. decode source = Some entries
                \<and> (\<not> distinct (map fst entries)
                   \<or> (\<exists>k c. (k, c) \<in> set entries \<and> \<not> nondecreasing (thresholds c))))"
  show lc: "LoadConfig decode source = Inl ConfigError"
    using bad by (rule LoadConfig_fails)
  with assms have ls: "LoadStreams W (config F) = Inl ConfigError"
    by (simp add: LoadStreams_spec_def)
  show "\<exists>msg. snd (main W F) = Fatal msg"
    using ls by (rule main_fatal_exit)
  have nl: "\<not> loop_event e" if "e \<in> set (fst (main W F))" for e
    using main_fatal_no_loop [OF ls that] by (rule conjunct1)
  have ni: "InitCall k p l \<notin> set (fst (main W F))" for k p l
  proof
    assume "InitCall k p l \<in> set (fst (main W F))"
    from main_fatal_no_loop [OF ls this] show False
      by blast
  qed
  show "filter loop_event (fst (main W F)) = []"
    using nl by (simp add: filter_empty_conv)
  show "init_calls (fst (main W F)) = []"
    using ni by (rule init_calls_empty)
  show "main W F = (evs0 @ [LoadStreamsCall (config F)], Fatal ConfigError)"
    if "region_of W F \<noteq> []" "queue_of W F \<noteq> []"
      "connect W F (region_of W F) (queue_of W F) = (evs0, Inr Q)"
    using that ls by (rule main_no_config)
next
  assume s: "LoadStreams W (config F) = Inr state" and k: "state k = Some stream"
  from s assms obtain m where m: "LoadConfig decode source = Inr m"
    and st: "state = (\<lambda>k. map_option mk (m k))"
    by (auto simp: LoadStreams_spec_def split: sum.splits)
  from st k obtain c where c: "m k = Some c" "stream = mk c"
    by auto
  from LoadConfig_validated [OF m c(1)] c(2) show "\<exists>c. stream = mk c \<and> nondecreasing (thresholds c)"
    by blast
qed


theorem config_error_is_fatal_witness:
  "LoadStreams (config_world duplicate_source) (config sample_flags)
     = LoadStreams_spec (\<lambda>s. s) (\<lambda>c. \<lparr>armedAt = 0, lastLevel = None\<rparr>) duplicate_source
   \<and> (\<exists>entries. duplicate_source = Some entries \<and> \<not> distinct (map fst entries))
   \<and> main (config_world duplicate_source) sample_flags =
       ([GetAuthCall [] [] (1000 * Second + 30 * Minute), GetQueueCall ''ap-southeast-2'' ''impact'',
         LoadStreamsCall ''impact.json''], Fatal ConfigError)
   \<and> (\<exists>entries k c. falling_source = Some entries \<and> (k, c) \<in> set entries
         \<and> \<not> nondecreasing (thresholds c))
   \<and> main (config_world falling_source) sample_flags =
       ([GetAuthCall [] [] (1000 * Second + 30 * Minute), GetQueueCall ''ap-southeast-2'' ''impact'',
         LoadStreamsCall ''impact.json''], Fatal ConfigError)
   \<and> main (config_world None) sample_flags =
       ([GetAuthCall [] [] (1000 * Second + 30 * Minute), GetQueueCall ''ap-southeast-2'' ''impact'',
         LoadStreamsCall ''impact.json''], Fatal ConfigError)
   \<and> filter loop_event (fst (main (config_world None) sample_flags)) = []
   \<and> init_calls (fst (main (config_world None) sample_flags)) = []"
proof -
  let ?mk = "\<lambda>c :: (unit, int) StreamConfig. \<lparr>armedAt = 0 :: int, lastLevel = None :: int option\<rparr>"
  let ?dec = "\<lambda>s :: (string \<times> (unit, int) StreamConfig) list option. s"
  let ?evs0 = "[GetAuthCall [] [] (1000 * Second + 30 * Minute), GetQueueCall ''ap-southeast-2'' ''impact'']
                 :: (int, unit Notice_ext) event list"
  have l: "LoadStreams (config_world src) (config sample_flags) = LoadStreams_spec ?dec ?mk src" for src
    by (simp add: config_world_def)
  have r: "region_of (config_world src) sample_flags \<noteq> []" for src
    by (simp add: config_world_def sample_world_def sample_flags_def)
  have q: "queue_of (config_world src) sample_flags \<noteq> []" for src
    by (simp add: config_world_def sample_world_def sample_flags_def)
  have c: "connect (config_world src) sample_flags (region_of (config_world src) sample_flags)
             (queue_of (config_world src) sample_flags) = (?evs0, Inr (Some ()))" for src
    by (simp add: connect_def config_world_def sample_world_def sample_flags_def)
  have cf: "config sample_flags = ''impact.json''"
    by (simp add: sample_flags_def)
  have d: "\<exists>entries. duplicate_source = Some entries \<and> \<not> distinct (map fst entries)"
    by (simp add: duplicate_source_def)
  have f: "\<exists>entries k c. falling_source = Some entries \<and> (k, c) \<in> set entries
         \<and> \<not> nondecreasing (thresholds c)"
    unfolding falling_source_def
    apply (rule exI [of _ "[(''NZ_WEL_10_HNZ'', sample_config [(0, 0), (100, 1), (500, 2)]),
          (''NZ_KHZ_10_HNZ'', sample_config [(0, 0), (500, 2), (100, 1)])]"])
    apply (rule exI [of _ "''NZ_KHZ_10_HNZ''"])
    apply (rule exI [of _ "sample_config [(0, 0), (500, 2), (100, 1)]"])
    apply (simp add: sample_config_def)
    done
  have bd: "?dec duplicate_source = None
           \<or> (\<exists>entries. ?dec duplicate_source = Some entries
                \<and> (\<not> distinct (map fst entries)
                   \<or> (\<exists>k c. (k, c) \<in> set entries \<and> \<not> nondecreasing (thresholds c))))"
    using d by blast
  have bf: "?dec falling_source = None
           \<or> (\<exists>entries. ?dec falling_source = Some entries
                \<and> (\<not> distinct (map fst entries)
                   \<or> (\<exists>k c. (k, c) \<in> set entries \<and> \<not> nondecreasing (thresholds c))))"
    using f by blast
  have bn: "?dec None = None
           \<or> (\<exists>entries. ?dec None = Some entries
                \<and> (\<not> distinct (map fst entries)
                   \<or> (\<exists>k c. (k, c) \<in> set entries \<and> \<not> nondecreasing (thresholds c))))"
    by simp
  note Td = config_error_is_fatal [where W = "config_world duplicate_source" and F = sample_flags
      and decode = ?dec and mk = ?mk and source = duplicate_source and ?evs0.0 = ?evs0 and Q = "Some ()",
      OF l, THEN conjunct1, THEN mp, OF bd]
  note Tf = config_error_is_fatal [where W = "config_world falling_source" and F = sample_flags
      and decode = ?dec and mk = ?mk and source = falling_source and ?evs0.0 = ?evs0 and Q = "Some ()",
      OF l, THEN conjunct1, THEN mp, OF bf]
  note Tn = config_error_is_fatal [where W = "config_world None" and F = sample_flags
      and decode = ?dec and mk = ?mk and source = None and ?evs0.0 = ?evs0 and Q = "Some ()",
      OF l, THEN conjunct1, THEN mp, OF bn]
  note last = conjunct2 [THEN conjunct2, THEN conjunct2, THEN conjunct2]
  note md = Td [THEN last, THEN mp, OF r, THEN mp, OF q, THEN mp, OF c, unfolded cf]
  note mf = Tf [THEN last, THEN mp, OF r, THEN mp, OF q, THEN mp, OF c, unfolded cf]
  note mn = Tn [THEN last, THEN mp, OF r, THEN mp, OF q, THEN mp, OF c, unfolded cf]
  note fl = Tn [THEN conjunct2, THEN conjunct2, THEN conjunct1]
  note ic = Tn [THEN conjunct2, THEN conjunct2, THEN conjunct2, THEN conjunct1]
  show ?thesis
    apply (intro conjI)
           apply (rule l)
          apply (rule d)
         apply (simp only: md append.simps)
        apply (rule f)
       apply (simp only: mf append.simps)
      apply (simp only: mn append.simps)
     apply (rule fl)
    apply (rule ic)
    done
qed

end
